theory Spec2Isabelle
  imports Complex_Main "HOL-Library.Word"
begin

section \<open>The arithmetic of the scan statistic\<close>

subsection \<open>Values of type \<open>double\<close>\<close>

text \<open>
  \<open>PBPOIabstract.h\<close> computes with C++ \<open>double\<close>. The model keeps the special values of
  IEEE 754 (\<open>R_NegInf\<close>, the infinities that a division by zero, an overflow or
  \<open>std::log(0)\<close> produce, and NaN) and the rules by which they propagate. A finite double is
  a real number; a finite result of an operation is kept exact as long as it stays below
  the overflow threshold and becomes the infinity of its sign otherwise, so rounding is
  left out and overflow is not. There is one zero (the in-zone baseline is the result of
  \<open>arma::accu\<close>, a sum started at \<open>+0\<close>; the only other divisor, \<open>m_total_count - B\<close>, is
  used behind the guard \<open>m_total_count > B\<close>).
\<close>

datatype dbl = NaN | NegInf | PosInf | Fin real

abbreviation R_NegInf :: dbl where
  "R_NegInf \<equiv> NegInf"

text \<open>The comparison \<open>a > b\<close> of two doubles: false as soon as one side is NaN.\<close>

fun dgt :: "dbl \<Rightarrow> dbl \<Rightarrow> bool" where
  "dgt (Fin x) (Fin y) = (y < x)"
| "dgt (Fin x) NegInf = True"
| "dgt PosInf (Fin y) = True"
| "dgt PosInf NegInf = True"
| "dgt _ _ = False"

text \<open>
  The largest finite double, and the least magnitude that rounds to an infinity (half a
  unit in the last place above it).
\<close>

definition DBL_MAX :: real where
  "DBL_MAX = 2 ^ 1024 - 2 ^ 971"

definition overflow_threshold :: real where
  "overflow_threshold = 2 ^ 1024 - 2 ^ 970"

definition finite_result :: "real \<Rightarrow> dbl" where
  "finite_result r =
     (if overflow_threshold \<le> r then PosInf
      else if r \<le> - overflow_threshold then NegInf
      else Fin r)"

fun dneg :: "dbl \<Rightarrow> dbl" where
  "dneg NaN = NaN"
| "dneg NegInf = PosInf"
| "dneg PosInf = NegInf"
| "dneg (Fin x) = Fin (- x)"

fun dadd :: "dbl \<Rightarrow> dbl \<Rightarrow> dbl" where
  "dadd (Fin x) (Fin y) = finite_result (x + y)"
| "dadd NaN _ = NaN"
| "dadd _ NaN = NaN"
| "dadd PosInf NegInf = NaN"
| "dadd NegInf PosInf = NaN"
| "dadd PosInf _ = PosInf"
| "dadd _ PosInf = PosInf"
| "dadd NegInf _ = NegInf"
| "dadd _ NegInf = NegInf"

definition dsub :: "dbl \<Rightarrow> dbl \<Rightarrow> dbl" where
  "dsub a b = dadd a (dneg b)"

fun dmul :: "dbl \<Rightarrow> dbl \<Rightarrow> dbl" where
  "dmul (Fin x) (Fin y) = finite_result (x * y)"
| "dmul NaN _ = NaN"
| "dmul _ NaN = NaN"
| "dmul (Fin x) PosInf = (if x = 0 then NaN else if 0 < x then PosInf else NegInf)"
| "dmul (Fin x) NegInf = (if x = 0 then NaN else if 0 < x then NegInf else PosInf)"
| "dmul PosInf (Fin y) = (if y = 0 then NaN else if 0 < y then PosInf else NegInf)"
| "dmul NegInf (Fin y) = (if y = 0 then NaN else if 0 < y then NegInf else PosInf)"
| "dmul PosInf PosInf = PosInf"
| "dmul NegInf NegInf = PosInf"
| "dmul PosInf NegInf = NegInf"
| "dmul NegInf PosInf = NegInf"

fun ddiv :: "dbl \<Rightarrow> dbl \<Rightarrow> dbl" where
  "ddiv (Fin x) (Fin y) =
     (if y = 0 then (if x = 0 then NaN else if 0 < x then PosInf else NegInf)
      else finite_result (x / y))"
| "ddiv NaN _ = NaN"
| "ddiv _ NaN = NaN"
| "ddiv (Fin x) PosInf = Fin 0"
| "ddiv (Fin x) NegInf = Fin 0"
| "ddiv PosInf (Fin y) = (if 0 \<le> y then PosInf else NegInf)"
| "ddiv NegInf (Fin y) = (if 0 \<le> y then NegInf else PosInf)"
| "ddiv _ _ = NaN"

text \<open>
  \<open>std::log\<close>: minus infinity at zero, NaN below it. The logarithm of a positive double
  lies between -745 and 710, far from the threshold.
\<close>

fun dlog :: "dbl \<Rightarrow> dbl" where
  "dlog (Fin x) = (if x < 0 then NaN else if x = 0 then NegInf else Fin (ln x))"
| "dlog PosInf = PosInf"
| "dlog NegInf = NaN"
| "dlog NaN = NaN"

subsection \<open>Integers\<close>

text \<open>
  \<open>arma::uword\<close> is the unsigned 64-bit integer of Armadillo, \<open>int\<close> the signed 32-bit
  integer; both are words, an \<open>int\<close> being read through \<open>sint\<close>.
\<close>

type_synonym uword = "64 word"
type_synonym cint = "32 word"

definition INT_MAX :: int where
  "INT_MAX = 2147483647"

text \<open>The conversions the usual arithmetic conversions insert.\<close>

definition double_of_uword :: "uword \<Rightarrow> dbl" where
  "double_of_uword w = Fin (real (unat w))"

definition double_of_int :: "cint \<Rightarrow> dbl" where
  "double_of_int i = Fin (real_of_int (sint i))"

definition uword_of_int :: "cint \<Rightarrow> uword" where
  "uword_of_int i = scast i"

definition int_of_uword :: "uword \<Rightarrow> cint" where
  "int_of_uword w = ucast w"

subsection \<open>The score of one candidate\<close>

text \<open>
  Lines 98 to 105 of \<open>calculate\<close>: the locals \<open>risk_in\<close>, \<open>risk_out\<close> and \<open>score\<close> as
  functions of \<open>m_total_count\<close> and of the two in-zone sums \<open>C\<close> and \<open>B\<close>.
  \<open>m_total_count - C\<close> is an \<open>int\<close> minus an \<open>arma::uword\<close>: the \<open>int\<close> is converted and
  the difference is taken modulo \<open>2 ^ 64\<close>.
\<close>

definition calc_risk_in :: "uword \<Rightarrow> dbl \<Rightarrow> dbl" where
  "calc_risk_in C B = ddiv (double_of_uword C) B"

definition calc_risk_out :: "cint \<Rightarrow> uword \<Rightarrow> dbl \<Rightarrow> dbl" where
  "calc_risk_out total_count C B =
     (if dgt (double_of_int total_count) B
      then ddiv (double_of_uword (uword_of_int total_count - C))
                (dsub (double_of_int total_count) B)
      else Fin 1)"

definition calc_score :: "cint \<Rightarrow> uword \<Rightarrow> dbl \<Rightarrow> dbl" where
  "calc_score total_count C B =
     (if dgt (double_of_uword C) B
      then dadd (dmul (double_of_uword C) (dlog (calc_risk_in C B)))
                (dmul (double_of_uword (uword_of_int total_count - C))
                      (dlog (calc_risk_out total_count C B)))
      else R_NegInf)"

section \<open>The object\<close>

subsection \<open>Matrices and vectors\<close>

text \<open>
  An Armadillo matrix is stored column by column; the model is the list of its columns,
  each the list of its entries from the first row (time step) to the last. A vector of
  indices (\<open>arma::uvec\<close>) is a list of naturals.
\<close>

type_synonym 'a mat = "'a list list"

datatype error =
    Out_of_bounds \<comment> \<open>Armadillo's bounds check throws\<close>
  | Undefined_behaviour \<comment> \<open>unchecked \<open>operator[]\<close> outside the vector, signed overflow\<close>

text \<open>\<open>arma::cumsum\<close> of a matrix runs down each column.\<close>

fun cumsum_col :: "('a \<Rightarrow> 'a \<Rightarrow> 'a) \<Rightarrow> 'a \<Rightarrow> 'a list \<Rightarrow> 'a list" where
  "cumsum_col add acc [] = []"
| "cumsum_col add acc (x # xs) = add acc x # cumsum_col add (add acc x) xs"

definition cumsum :: "uword mat \<Rightarrow> uword mat" where
  "cumsum m = map (cumsum_col (+) 0) m"

definition cumsum_dbl :: "dbl mat \<Rightarrow> dbl mat" where
  "cumsum_dbl m = map (cumsum_col dadd (Fin 0)) m"

text \<open>\<open>arma::accu\<close>: the sum of all entries, modulo \<open>2 ^ 64\<close> for \<open>arma::uword\<close>.\<close>

definition accu :: "uword list \<Rightarrow> uword" where
  "accu xs = foldl (+) 0 xs"

definition accu_dbl :: "dbl list \<Rightarrow> dbl" where
  "accu_dbl xs = foldl dadd (Fin 0) xs"

text \<open>\<open>v.tail(1)\<close> throws on an empty vector.\<close>

definition tail_1 :: "nat list \<Rightarrow> error + nat list" where
  "tail_1 v = (if v = [] then Inl Out_of_bounds else Inr [last v])"

text \<open>
  \<open>m.submat(row_idx, col_idx)\<close>: the chosen entries, column by column; an index outside
  the matrix throws.
\<close>

definition submat :: "'a mat \<Rightarrow> nat list \<Rightarrow> nat list \<Rightarrow> error + 'a list" where
  "submat m row_idx col_idx =
     (if list_all (\<lambda>c. c < length m \<and> list_all (\<lambda>r. r < length (m ! c)) row_idx) col_idx
      then Inr (concat (map (\<lambda>c. map (\<lambda>r. m ! c ! r) row_idx) col_idx))
      else Inl Out_of_bounds)"

text \<open>
  \<open>v[i]\<close> with an \<open>int\<close> index: Armadillo's \<open>operator[]\<close> does not check the index, so an
  access outside the vector is undefined behaviour.
\<close>

definition in_bounds :: "cint \<Rightarrow> 'a list \<Rightarrow> bool" where
  "in_bounds i v = (0 \<le> sint i \<and> nat (sint i) < length v)"

definition elem :: "'a list \<Rightarrow> cint \<Rightarrow> 'a" where
  "elem v i = v ! nat (sint i)"

definition assign :: "'a list \<Rightarrow> cint \<Rightarrow> 'a \<Rightarrow> 'a list" where
  "assign v i x = v[nat (sint i) := x]"

subsection \<open>The members\<close>

text \<open>
  Modelled from the spec: the members inherited from \<open>USTscan<arma::umat, int>\<close>, whose
  declaration (\<open>USTscan.h\<close>) is not among the sources. \<open>m_counts\<close> has the type of the
  template argument. The result vectors \<open>m_scores\<close>, \<open>m_zone_numbers\<close>, \<open>m_durations\<close> and
  their \<open>sim_\<close> counterparts are the parallel sequences of the data model, indexed by a
  storage slot, with a zone number and a duration of type Int and a score of type Real;
  \<open>m_out_length\<close> and \<open>m_num_mcsim\<close> are the sizes they are created with, and
  \<open>m_mcsim_index\<close> is the current simulation round. The other members are those declared in
  \<open>PBPOIabstract\<close>; \<open>store\<close> is the pointer to one of the three storage functions.
\<close>

datatype store_ptr = Store_all | Store_max | Store_sim

record pbpoi =
  m_counts :: "uword mat"
  m_baselines :: "dbl mat"
  m_baselines_orig :: "dbl mat"
  m_total_count :: cint
  m_out_length :: nat
  m_num_mcsim :: nat
  m_mcsim_index :: cint
  m_scores :: "dbl list"
  m_relrisk_in :: "dbl list"
  m_relrisk_out :: "dbl list"
  m_zone_numbers :: "cint list"
  m_durations :: "cint list"
  sim_scores :: "dbl list"
  sim_relrisk_in :: "dbl list"
  sim_relrisk_out :: "dbl list"
  sim_zone_numbers :: "cint list"
  sim_durations :: "cint list"
  store :: store_ptr

subsection \<open>Constructor\<close>

text \<open>
  \<open>base\<close> is the object as the constructor of \<open>USTscan\<close> leaves it (that class is not part
  of the sources at hand). \<open>set_size\<close> does not initialise the entries: \<open>uninit\<close> stands for
  what the fresh memory holds, and \<open>uninitialised\<close> is one such content.
\<close>

definition set_size :: "(nat \<Rightarrow> dbl) \<Rightarrow> nat \<Rightarrow> dbl list" where
  "set_size uninit n = map uninit [0..<n]"

definition uninitialised :: "nat \<Rightarrow> dbl" where
  "uninitialised k = NaN"

definition PBPOIabstract ::
  "pbpoi \<Rightarrow> (nat \<Rightarrow> dbl) \<Rightarrow> uword mat \<Rightarrow> dbl mat \<Rightarrow> bool \<Rightarrow> pbpoi" where
  "PBPOIabstract base uninit counts baselines store_everything =
     base\<lparr>m_baselines_orig := baselines,
          m_total_count := int_of_uword (accu (concat counts)),
          m_counts := cumsum counts,
          m_baselines := cumsum_dbl baselines,
          store := (if store_everything then Store_all else Store_max),
          m_relrisk_in := set_size uninit (m_out_length base),
          m_relrisk_out := set_size uninit (m_out_length base),
          sim_relrisk_in := set_size uninit (m_num_mcsim base),
          sim_relrisk_out := set_size uninit (m_num_mcsim base)\<rparr>"

subsection \<open>Storage functions\<close>

definition store_all ::
  "pbpoi \<Rightarrow> cint \<Rightarrow> dbl \<Rightarrow> dbl \<Rightarrow> dbl \<Rightarrow> cint \<Rightarrow> cint \<Rightarrow> error + pbpoi" where
  "store_all st storage_index score q_in q_out zone_nr duration =
     (if in_bounds storage_index (m_scores st) \<and> in_bounds storage_index (m_relrisk_in st) \<and>
         in_bounds storage_index (m_relrisk_out st) \<and>
         in_bounds storage_index (m_zone_numbers st) \<and>
         in_bounds storage_index (m_durations st)
      then Inr (st\<lparr>m_scores := assign (m_scores st) storage_index score,
                  m_relrisk_in := assign (m_relrisk_in st) storage_index q_in,
                  m_relrisk_out := assign (m_relrisk_out st) storage_index q_out,
                  m_zone_numbers := assign (m_zone_numbers st) storage_index zone_nr,
                  m_durations := assign (m_durations st) storage_index duration\<rparr>)
      else Inl Undefined_behaviour)"

definition store_max ::
  "pbpoi \<Rightarrow> cint \<Rightarrow> dbl \<Rightarrow> dbl \<Rightarrow> dbl \<Rightarrow> cint \<Rightarrow> cint \<Rightarrow> error + pbpoi" where
  "store_max st storage_index score q_in q_out zone_nr duration =
     (if \<not> in_bounds 0 (m_scores st) then Inl Undefined_behaviour
      else if dgt score (elem (m_scores st) 0)
      then (if in_bounds 0 (m_relrisk_in st) \<and> in_bounds 0 (m_relrisk_out st) \<and>
               in_bounds 0 (m_zone_numbers st) \<and> in_bounds 0 (m_durations st)
            then Inr (st\<lparr>m_scores := assign (m_scores st) 0 score,
                        m_relrisk_in := assign (m_relrisk_in st) 0 q_in,
                        m_relrisk_out := assign (m_relrisk_out st) 0 q_out,
                        m_zone_numbers := assign (m_zone_numbers st) 0 zone_nr,
                        m_durations := assign (m_durations st) 0 duration\<rparr>)
            else Inl Undefined_behaviour)
      else Inr st)"

definition store_sim ::
  "pbpoi \<Rightarrow> cint \<Rightarrow> dbl \<Rightarrow> dbl \<Rightarrow> dbl \<Rightarrow> cint \<Rightarrow> cint \<Rightarrow> error + pbpoi" where
  "store_sim st storage_index score q_in q_out zone_nr duration =
     (let k = m_mcsim_index st in
      if \<not> in_bounds k (sim_scores st) then Inl Undefined_behaviour
      else if dgt score (elem (sim_scores st) k)
      then (if in_bounds k (sim_relrisk_in st) \<and> in_bounds k (sim_relrisk_out st) \<and>
               in_bounds k (sim_zone_numbers st) \<and> in_bounds k (sim_durations st)
            then Inr (st\<lparr>sim_scores := assign (sim_scores st) k score,
                        sim_relrisk_in := assign (sim_relrisk_in st) k q_in,
                        sim_relrisk_out := assign (sim_relrisk_out st) k q_out,
                        sim_zone_numbers := assign (sim_zone_numbers st) k zone_nr,
                        sim_durations := assign (sim_durations st) k duration\<rparr>)
            else Inl Undefined_behaviour)
      else Inr st)"

definition set_sim_store_fun :: "pbpoi \<Rightarrow> pbpoi" where
  "set_sim_store_fun st = st\<lparr>store := Store_sim\<rparr>"

text \<open>The call through the member pointer, \<open>(this->*store)(...)\<close>.\<close>

definition call_store ::
  "store_ptr \<Rightarrow> pbpoi \<Rightarrow> cint \<Rightarrow> dbl \<Rightarrow> dbl \<Rightarrow> dbl \<Rightarrow> cint \<Rightarrow> cint \<Rightarrow> error + pbpoi" where
  "call_store p = (case p of Store_all \<Rightarrow> store_all | Store_max \<Rightarrow> store_max
                   | Store_sim \<Rightarrow> store_sim)"

subsection \<open>Workhorse functions\<close>

text \<open>
  Lines 92 to 96 of \<open>calculate\<close>: the in-zone sums \<open>C\<close> and \<open>B\<close>, read from the last of the
  current rows.
\<close>

definition in_zone_sums :: "pbpoi \<Rightarrow> nat list \<Rightarrow> nat list \<Rightarrow> error + uword \<times> dbl" where
  "in_zone_sums st current_zone current_rows =
     (case tail_1 current_rows of Inl e \<Rightarrow> Inl e | Inr row_idx \<Rightarrow>
      case submat (m_counts st) row_idx current_zone of Inl e \<Rightarrow> Inl e | Inr cs \<Rightarrow>
      case submat (m_baselines st) row_idx current_zone of Inl e \<Rightarrow> Inl e | Inr bs \<Rightarrow>
        Inr (accu cs, accu_dbl bs))"

text \<open>\<open>zone_nr + 1\<close> and \<open>duration + 1\<close> are \<open>int\<close> additions: undefined at \<open>INT_MAX\<close>.\<close>

definition calculate ::
  "pbpoi \<Rightarrow> cint \<Rightarrow> cint \<Rightarrow> cint \<Rightarrow> nat list \<Rightarrow> nat list \<Rightarrow> error + pbpoi" where
  "calculate st storage_index zone_nr duration current_zone current_rows =
     (case in_zone_sums st current_zone current_rows of Inl e \<Rightarrow> Inl e | Inr (C, B) \<Rightarrow>
        let risk_in = calc_risk_in C B;
            risk_out = calc_risk_out (m_total_count st) C B;
            score = calc_score (m_total_count st) C B
        in if sint zone_nr = INT_MAX \<or> sint duration = INT_MAX then Inl Undefined_behaviour
           else call_store (store st) st storage_index score risk_in risk_out
                  (zone_nr + 1) (duration + 1))"

definition draw_sample :: "nat \<Rightarrow> nat \<Rightarrow> cint" where
  "draw_sample row col = 1"

text \<open>
  A pass: \<open>calculate\<close> called on one candidate after the other, each candidate being the
  five arguments of the call. The first failure ends the pass.
\<close>

type_synonym candidate = "cint \<times> cint \<times> cint \<times> nat list \<times> nat list"

fun calculate_all :: "pbpoi \<Rightarrow> candidate list \<Rightarrow> error + pbpoi" where
  "calculate_all st [] = Inr st"
| "calculate_all st ((storage_index, zone_nr, duration, current_zone, current_rows) # cs) =
     (case calculate st storage_index zone_nr duration current_zone current_rows of
        Inl e \<Rightarrow> Inl e
      | Inr st' \<Rightarrow> calculate_all st' cs)"

text \<open>
  The same for a storage function alone: a stored candidate is the six arguments of the
  call.
\<close>

type_synonym stored = "cint \<times> dbl \<times> dbl \<times> dbl \<times> cint \<times> cint"

fun store_each :: "store_ptr \<Rightarrow> pbpoi \<Rightarrow> stored list \<Rightarrow> error + pbpoi" where
  "store_each p st [] = Inr st"
| "store_each p st ((storage_index, score, q_in, q_out, zone_nr, duration) # cs) =
     (case call_store p st storage_index score q_in q_out zone_nr duration of
        Inl e \<Rightarrow> Inl e
      | Inr st' \<Rightarrow> store_each p st' cs)"

text \<open>
  What a storage function is given: the row its arguments make, and their score.
\<close>

definition stored_row :: "stored \<Rightarrow> cint \<times> cint \<times> dbl \<times> dbl \<times> dbl" where
  "stored_row c = (case c of (storage_index, score, q_in, q_out, zone_nr, duration) \<Rightarrow>
                     (zone_nr, duration, score, q_in, q_out))"

definition stored_score :: "stored \<Rightarrow> dbl" where
  "stored_score c = fst (snd c)"

text \<open>
  A valid slot: an index inside all five vectors of the observed results, or of the
  simulated ones.
\<close>

definition valid_slot :: "pbpoi \<Rightarrow> cint \<Rightarrow> bool" where
  "valid_slot st i =
     (in_bounds i (m_scores st) \<and> in_bounds i (m_relrisk_in st) \<and>
      in_bounds i (m_relrisk_out st) \<and> in_bounds i (m_zone_numbers st) \<and>
      in_bounds i (m_durations st))"

definition valid_sim_slot :: "pbpoi \<Rightarrow> cint \<Rightarrow> bool" where
  "valid_sim_slot st i =
     (in_bounds i (sim_scores st) \<and> in_bounds i (sim_relrisk_in st) \<and>
      in_bounds i (sim_relrisk_out st) \<and> in_bounds i (sim_zone_numbers st) \<and>
      in_bounds i (sim_durations st))"

subsection \<open>Retrieval functions\<close>

text \<open>
  A data frame is its five columns \<open>zone\<close>, \<open>duration\<close>, \<open>score\<close>, \<open>relrisk_in\<close> and
  \<open>relrisk_out\<close>; a row of it is the five entries at one index.
\<close>

record data_frame =
  col_zone :: "cint list"
  col_duration :: "cint list"
  col_score :: "dbl list"
  col_relrisk_in :: "dbl list"
  col_relrisk_out :: "dbl list"

definition get_scan :: "pbpoi \<Rightarrow> data_frame" where
  "get_scan st =
     \<lparr>col_zone = m_zone_numbers st, col_duration = m_durations st, col_score = m_scores st,
      col_relrisk_in = m_relrisk_in st, col_relrisk_out = m_relrisk_out st\<rparr>"

definition get_mcsim :: "pbpoi \<Rightarrow> data_frame" where
  "get_mcsim st =
     \<lparr>col_zone = sim_zone_numbers st, col_duration = sim_durations st,
      col_score = sim_scores st, col_relrisk_in = sim_relrisk_in st,
      col_relrisk_out = sim_relrisk_out st\<rparr>"

definition row :: "data_frame \<Rightarrow> cint \<Rightarrow> cint \<times> cint \<times> dbl \<times> dbl \<times> dbl" where
  "row df i = (elem (col_zone df) i, elem (col_duration df) i, elem (col_score df) i,
               elem (col_relrisk_in df) i, elem (col_relrisk_out df) i)"

definition has_rows :: "data_frame \<Rightarrow> nat \<Rightarrow> bool" where
  "has_rows df n =
     (length (col_zone df) = n \<and> length (col_duration df) = n \<and> length (col_score df) = n \<and>
      length (col_relrisk_in df) = n \<and> length (col_relrisk_out df) = n)"

text \<open>
  The retained maximum: slot 0 of the observed results, or, once \<open>store_sim\<close> is the
  storage function, the slot of the current simulation round.
\<close>

definition retained :: "pbpoi \<Rightarrow> cint \<times> cint \<times> dbl \<times> dbl \<times> dbl" where
  "retained st = (case store st of Store_sim \<Rightarrow> row (get_mcsim st) (m_mcsim_index st)
                  | _ \<Rightarrow> row (get_scan st) 0)"

text \<open>
  What \<open>calculate\<close> hands to the storage function for a candidate with the in-zone sums
  \<open>C\<close> and \<open>B\<close>, as a row.
\<close>

definition computed_row ::
  "pbpoi \<Rightarrow> cint \<Rightarrow> cint \<Rightarrow> uword \<Rightarrow> dbl \<Rightarrow> cint \<times> cint \<times> dbl \<times> dbl \<times> dbl" where
  "computed_row st zone_nr duration C B =
     (zone_nr + 1, duration + 1, calc_score (m_total_count st) C B, calc_risk_in C B,
      calc_risk_out (m_total_count st) C B)"

subsection \<open>The aggregate tables\<close>

text \<open>
  The cumulative counts, the cumulative baselines and the total count; the final row of a
  matrix holds, for each column (location), the entry of the last time step.
\<close>

definition aggregate_tables :: "pbpoi \<Rightarrow> uword mat \<times> dbl mat \<times> cint" where
  "aggregate_tables st = (m_counts st, m_baselines st, m_total_count st)"

definition final_row :: "'a mat \<Rightarrow> 'a list" where
  "final_row m = map last m"

subsection \<open>Scenario A\<close>

text \<open>
  The table of Scenario A of the specification: one location, two time steps, raw counts 3
  and 5, baselines 2 and 2, and two simulation rounds. \<open>example_base\<close> is an object as the
  constructor of the base class can leave it: the result vectors at their sizes (one slot,
  or one per candidate when everything is stored), the scores at \<open>R_NegInf\<close>.
\<close>

definition example_base :: "bool \<Rightarrow> pbpoi" where
  "example_base store_everything =
     (let n = (if store_everything then 2 else 1)
      in \<lparr>m_counts = [[3, 5]], m_baselines = [], m_baselines_orig = [], m_total_count = 0,
          m_out_length = n, m_num_mcsim = 2, m_mcsim_index = 0,
          m_scores = replicate n R_NegInf, m_relrisk_in = [], m_relrisk_out = [],
          m_zone_numbers = replicate n 0, m_durations = replicate n 0,
          sim_scores = replicate 2 R_NegInf, sim_relrisk_in = [], sim_relrisk_out = [],
          sim_zone_numbers = replicate 2 0, sim_durations = replicate 2 0,
          store = Store_max\<rparr>)"

definition scenario_A :: "bool \<Rightarrow> pbpoi" where
  "scenario_A store_everything =
     PBPOIabstract (example_base store_everything) uninitialised [[3, 5]] [[Fin 2, Fin 2]]
       store_everything"

text \<open>
  The same table with the raw baselines 2 and 7: over both time steps the in-zone count 8
  does not exceed the in-zone baseline 9.
\<close>

definition scenario_no_excess :: pbpoi where
  "scenario_no_excess =
     PBPOIabstract (example_base False) uninitialised [[3, 5]] [[Fin 2, Fin 7]] False"

text \<open>A table whose only count is \<open>2 ^ 31\<close>, one more than \<open>INT_MAX\<close>.\<close>

definition scenario_overflow :: pbpoi where
  "scenario_overflow =
     PBPOIabstract (example_base False) uninitialised [[2147483648]] [[Fin 1]] False"

text \<open>
  A table whose only count is \<open>2 ^ 32 + 8\<close>, with the baseline 4: the total count stored in
  the \<open>int\<close> is 8.
\<close>

definition scenario_wrap :: pbpoi where
  "scenario_wrap =
     PBPOIabstract (example_base False) uninitialised [[4294967304]] [[Fin 4]] False"

section \<open>The score\<close>

subsection \<open>Results within the range of doubles\<close>

lemma threshold_large: "2 ^ 64 < overflow_threshold"
  by (simp add: overflow_threshold_def)

lemma threshold_below_power: "overflow_threshold < 2 ^ 1024"
  by (simp add: overflow_threshold_def)

lemma DBL_MAX_large: "2 ^ 64 \<le> DBL_MAX"
  by (simp add: DBL_MAX_def)

lemma DBL_MAX_threshold: "DBL_MAX + 2 ^ 64 < overflow_threshold"
  by (simp add: DBL_MAX_def overflow_threshold_def)

lemma below_threshold: "r \<le> 2 ^ 64 \<Longrightarrow> r < overflow_threshold"
  using threshold_large by simp

lemma finite_result_small: "\<bar>r\<bar> \<le> 2 ^ 64 \<Longrightarrow> finite_result r = Fin r"
  using threshold_large by (auto simp: finite_result_def)

lemma finite_result_pos:
  "0 \<le> r \<Longrightarrow> r < overflow_threshold \<Longrightarrow> finite_result r = Fin r"
  using threshold_large by (simp add: finite_result_def)


lemma finite_result_pos_not_zero: "0 < r \<Longrightarrow> finite_result r \<noteq> Fin 0"
  by (simp add: finite_result_def)

lemma dadd_NaN_right: "dadd a NaN = NaN"
  by (cases a) simp_all

text \<open>Two bounds on the logarithm.\<close>

lemma ln_below_threshold:
  assumes "0 < x" and "x < overflow_threshold"
  shows "ln x < 1024"
proof -
  have "x < 2 ^ 1024"
    using assms(2) threshold_below_power by (rule less_trans)
  moreover have "(0::real) < 2 ^ 1024"
    by (rule zero_less_power) simp
  ultimately have "ln x < ln ((2::real) ^ 1024)"
    using assms(1) by (simp only: ln_less_cancel_iff)
  also have "ln ((2::real) ^ 1024) = real 1024 * ln 2"
    by (rule ln_realpow)
  also have "\<dots> < 1024"
    using ln_2_less_1 by simp
  finally show ?thesis .
qed

lemma minus_ln_le:
  assumes "0 < (y::real)"
  shows "- ln y \<le> 1 / y - 1"
proof -
  have "ln (1 / y) \<le> 1 / y - 1"
    using assms by (intro ln_le_minus_one) simp
  then show ?thesis
    using assms by (simp add: ln_div)
qed

lemma abs_ln_le:
  assumes "0 < (y::real)"
  shows "\<bar>ln y\<bar> \<le> y + 1 / y"
proof -
  have "ln y \<le> y - 1"
    using assms by (rule ln_le_minus_one)
  moreover have "- ln y \<le> 1 / y - 1"
    using assms by (rule minus_ln_le)
  moreover have "0 < 1 / y"
    using assms by simp
  ultimately show ?thesis
    using assms by linarith
qed

subsection \<open>The difference \<open>m_total_count - C\<close>\<close>

text \<open>
  As long as the in-zone count does not exceed the total, the unsigned difference is the
  difference of the two numbers.
\<close>

lemma unat_total_minus_C:
  fixes total_count :: cint and C :: uword
  assumes "int (unat C) \<le> sint total_count"
  shows "int (unat (uword_of_int total_count - C)) = sint total_count - int (unat C)"
proof -
  let ?k = "sint total_count - int (unat C)"
  have r: "sint total_count < 2 ^ 31"
    using sint_range_size [of total_count] by (simp add: word_size)
  have e: "uword_of_int total_count - C = word_of_int ?k"
    by (simp add: uword_of_int_def)
  have c: "0 \<le> int (unat C)"
    by (rule of_nat_0_le_iff)
  have r': "sint total_count < 2147483648"
    using r by simp
  have "?k < 18446744073709551616"
    using r' c by linarith
  then have k: "0 \<le> ?k" "?k < 2 ^ 64"
    using assms by simp_all
  have "uint (word_of_int ?k :: uword) = take_bit 64 ?k"
    by (simp only: uint_word_of_int_eq len_bit0 len_num1 mult_numeral_left_semiring_numeral
        numeral_times_numeral mult_1_right mult_1 semiring_norm mult.right_neutral)
  also have "\<dots> = ?k"
    using k by (simp only: take_bit_int_eq_self)
  finally show ?thesis
    unfolding e by (simp only: of_nat_unat)
qed

lemma double_of_total_minus_C:
  "int (unat C) \<le> sint total_count \<Longrightarrow>
   double_of_uword (uword_of_int total_count - C) =
     Fin (real_of_int (sint total_count - int (unat C)))"
  unfolding double_of_uword_def using unat_total_minus_C [of C total_count]
  by (metis of_int_of_nat_eq)

subsection \<open>Excess candidates\<close>

text \<open>
  For a candidate with \<open>0 < B < C < m_total_count\<close> whose quotient \<open>C / B\<close> does not
  overflow, no step of lines 98 to 105 overflows: the in-zone risk exceeds 1, the
  out-of-zone risk lies between \<open>2 ^ -31\<close> and 1, and the two products are bounded.
\<close>

lemma calc_excess_values:
  fixes total_count :: cint and C :: uword and b :: real
  assumes "0 < b" and "b < real (unat C)" and "int (unat C) < sint total_count"
    and "real (unat C) / b < overflow_threshold"
  shows "calc_risk_in C (Fin b) = Fin (real (unat C) / b)"
    and "calc_risk_out total_count C (Fin b) =
           Fin (real_of_int (sint total_count - int (unat C)) /
                (real_of_int (sint total_count) - b))"
    and "calc_score total_count C (Fin b) =
           Fin (real (unat C) * ln (real (unat C) / b) +
                real_of_int (sint total_count - int (unat C)) *
                  ln (real_of_int (sint total_count - int (unat C)) /
                      (real_of_int (sint total_count) - b)))"
proof -
  define c where "c = real (unat C)"
  define t where "t = real_of_int (sint total_count)"
  have dc: "double_of_uword C = Fin c"
    by (simp add: double_of_uword_def c_def)
  have dt: "double_of_int total_count = Fin t"
    by (simp add: double_of_int_def t_def)
  have n: "real_of_int (sint total_count - int (unat C)) = t - c"
    by (simp add: c_def t_def)
  have "int (unat C) \<le> sint total_count"
    using assms(3) by simp
  then have du: "double_of_uword (uword_of_int total_count - C) = Fin (t - c)"
    unfolding n [symmetric] by (rule double_of_total_minus_C)
  have bc: "b < c" and o: "c / b < overflow_threshold"
    using assms(2,4) by (simp_all add: c_def)
  have "sint total_count < 2 ^ 31"
    using sint_range_size [of total_count] by (simp add: word_size)
  then have "sint total_count \<le> 2147483647"
    by simp
  then have t31: "t \<le> 2147483647"
    unfolding t_def by (metis of_int_le_iff of_int_numeral)
  have "int (unat C) + 1 \<le> sint total_count"
    using assms(3) by simp
  then have "real_of_int (int (unat C) + 1) \<le> real_of_int (sint total_count)"
    by (simp only: of_int_le_iff)
  then have ct: "c + 1 \<le> t"
    by (simp add: c_def t_def)
  have c0: "0 < c"
    using assms(1) bc by linarith
  have tb: "0 < t - b" "t - b \<le> 2147483647"
    using bc ct t31 assms(1) by linarith+
  have tc: "1 \<le> t - c" "t - c \<le> 2147483647"
    using ct t31 c0 by linarith+
  define x where "x = c / b"
  define y where "y = (t - c) / (t - b)"
  have x: "1 < x"
    using assms(1) bc by (simp add: x_def)
  have y: "0 < y" "y < 1"
    using tb tc bc by (simp_all add: y_def)
  have fx: "finite_result x = Fin x"
    using x o by (intro finite_result_pos) (simp_all add: x_def)
  have fy: "finite_result y = Fin y"
    using y by (intro finite_result_small) simp
  have ftb: "finite_result (t - b) = Fin (t - b)"
    using tb by (intro finite_result_small) simp
  have ri: "calc_risk_in C (Fin b) = Fin x"
    using assms(1) fx by (simp add: calc_risk_in_def dc x_def)
  have sub: "dsub (Fin t) (Fin b) = Fin (t - b)"
    using ftb by (simp add: dsub_def)
  have ro: "calc_risk_out total_count C (Fin b) = Fin y"
    using tb bc ct fy by (simp add: calc_risk_out_def dt du sub y_def)
  have lx: "0 < ln x" "ln x < 1024"
    using x o ln_below_threshold [of x] by (simp_all add: x_def)
  have "1 / y = (t - b) / (t - c)"
    by (simp add: y_def)
  also have "\<dots> \<le> (t - b) / 1"
    using tb(1) tc(1) by (intro divide_left_mono) simp_all
  finally have "1 / y \<le> 2147483647"
    using tb(2) by simp
  then have ly: "ln y < 0" "- ln y \<le> 2147483647"
    using y minus_ln_le [of y] by simp_all
  define p1 where "p1 = c * ln x"
  define p2 where "p2 = (t - c) * ln y"
  have "c * ln x \<le> 2147483647 * 1024"
    using c0 ct t31 lx by (intro mult_mono) simp_all
  then have p1: "0 \<le> p1" "p1 \<le> 2199023254528"
    using c0 lx(1) by (simp_all add: p1_def)
  have "(t - c) * (- ln y) \<le> 2147483647 * 2147483647"
    using tc ly by (intro mult_mono) simp_all
  then have p2: "p2 \<le> 0" "- 4611686014132420609 \<le> p2"
    using tc(1) ly(1) by (simp_all add: p2_def mult_le_0_iff)
  have fp: "finite_result p1 = Fin p1" "finite_result p2 = Fin p2"
    "finite_result (p1 + p2) = Fin (p1 + p2)"
    using p1 p2 by (intro finite_result_small; simp)+
  have m1: "dmul (Fin c) (dlog (Fin x)) = Fin p1"
    using x fp(1) by (simp add: p1_def)
  have m2: "dmul (Fin (t - c)) (dlog (Fin y)) = Fin p2"
    using y fp(2) by (simp add: p2_def)
  have "calc_score total_count C (Fin b) =
      dadd (dmul (Fin c) (dlog (Fin x))) (dmul (Fin (t - c)) (dlog (Fin y)))"
    using bc by (simp add: calc_score_def dc du ri ro)
  also have "\<dots> = Fin (p1 + p2)"
    by (simp only: m1 m2 dadd.simps(1) fp(3))
  finally have sc: "calc_score total_count C (Fin b) =
      Fin (c * ln (c / b) + (t - c) * ln ((t - c) / (t - b)))"
    by (simp only: p1_def p2_def x_def y_def)
  show "calc_risk_in C (Fin b) = Fin (real (unat C) / b)"
    using ri by (simp only: x_def c_def)
  show "calc_risk_out total_count C (Fin b) =
           Fin (real_of_int (sint total_count - int (unat C)) /
                (real_of_int (sint total_count) - b))"
    unfolding n using ro by (simp only: y_def c_def t_def)
  show "calc_score total_count C (Fin b) =
           Fin (real (unat C) * ln (real (unat C) / b) +
                real_of_int (sint total_count - int (unat C)) *
                  ln (real_of_int (sint total_count - int (unat C)) /
                      (real_of_int (sint total_count) - b)))"
    unfolding n using sc by (simp only: c_def t_def)
qed

text \<open>
  Claim C1, as the code has it. For a candidate with \<open>0 < B < C < m_total_count\<close> whose
  quotient \<open>C / B\<close> stays below the overflow threshold of \<open>double\<close>, the score is the finite
  real number
  \<open>C * ln (C / B) + (m_total_count - C) * ln ((m_total_count - C) / (m_total_count - B))\<close>.
\<close>

theorem calc_score_excess:
  fixes total_count :: cint and C :: uword and b :: real
  assumes "0 < b" and "b < real (unat C)" and "int (unat C) < sint total_count"
    and "real (unat C) / b < overflow_threshold"
  shows "calc_score total_count C (Fin b) =
           Fin (real (unat C) * ln (real (unat C) / b) +
                real_of_int (sint total_count - int (unat C)) *
                  ln (real_of_int (sint total_count - int (unat C)) /
                      (real_of_int (sint total_count) - b)))"
  using assms by (rule calc_excess_values(3))

text \<open>Total 8, in-zone count 3, in-zone baseline 2.\<close>

theorem calc_score_excess_witness:
  "(0::real) < 2 \<and> (2::real) < real (unat (3::uword)) \<and> int (unat (3::uword)) < sint (8::cint) \<and>
   real (unat (3::uword)) / 2 < overflow_threshold \<and>
   calc_score 8 3 (Fin 2) = Fin (3 * ln (3 / 2) + 5 * ln (5 / 6))"
proof -
  have o: "real (unat (3::uword)) / 2 < overflow_threshold"
    by (rule below_threshold) simp
  then show ?thesis
    using calc_score_excess [of 2 3 8] by simp
qed

text \<open>
  Scenario A of the specification: raw counts 3 and 5 at one location, baselines 2 and 2.
  The full window has \<open>C = 8\<close>, \<open>B = 4\<close> and total 8: \<open>C\<close> exceeds \<open>B\<close>, the out-of-zone risk
  is 0, its logarithm is minus infinity, and \<open>0 * -inf\<close> is NaN. And with total 8, \<open>C = 3\<close>
  and the baseline \<open>B = 0\<close>, the in-zone risk and the score are plus infinity.
\<close>

theorem calc_score_boundary_counterexample:
  "dgt (double_of_uword 8) (Fin 4) \<and> calc_risk_out 8 8 (Fin 4) = Fin 0 \<and>
   calc_score 8 8 (Fin 4) = NaN \<and>
   dgt (double_of_uword 3) (Fin 0) \<and> calc_score 8 3 (Fin 0) = PosInf"
proof -
  have ro: "calc_risk_out 8 8 (Fin 4) = Fin 0"
    by (simp add: calc_risk_out_def double_of_uword_def double_of_int_def uword_of_int_def
        dsub_def finite_result_small)
  have s1: "calc_score 8 8 (Fin 4) = NaN"
    by (simp add: calc_score_def ro double_of_uword_def uword_of_int_def dadd_NaN_right)
  have "\<bar>ln (5 / 8 :: real)\<bar> \<le> 5 / 8 + 1 / (5 / 8)"
    by (rule abs_ln_le) simp
  then have "\<bar>5 * ln (5 / 8 :: real)\<bar> \<le> 2 ^ 64"
    by (simp add: abs_mult)
  then have f: "finite_result (5 * ln (5 / 8)) = Fin (5 * ln (5 / 8))"
    by (rule finite_result_small)
  have ro': "calc_risk_out 8 3 (Fin 0) = Fin (5 / 8)"
    by (simp add: calc_risk_out_def double_of_uword_def double_of_int_def uword_of_int_def
        dsub_def finite_result_small)
  have s2: "calc_score 8 3 (Fin 0) = PosInf"
    by (simp add: calc_score_def ro' calc_risk_in_def double_of_uword_def uword_of_int_def f)
  show ?thesis
    using ro s1 s2 by (simp add: double_of_uword_def)
qed

subsection \<open>The relative risk outside the zone\<close>

lemma dgt_Fin_divisor:
  "dgt (Fin t) B \<Longrightarrow> dsub (Fin t) B \<noteq> Fin 0"
  by (cases B) (simp_all add: dsub_def finite_result_def)

text \<open>
  Claim C3, as the code has it. When \<open>m_total_count > B\<close> the divisor \<open>m_total_count - B\<close>
  is not zero; for a finite \<open>B\<close> and an in-zone count within the total, the out-of-zone
  risk is the quotient \<open>(m_total_count - C) / (m_total_count - B)\<close> of the two numbers (the
  infinity, should that quotient overflow), and for \<open>B\<close> minus infinity it is 0. In every
  other case, so when \<open>m_total_count = B\<close>, it is exactly 1 and nothing is divided.
\<close>

theorem calc_risk_out_cases:
  fixes total_count :: cint and C :: uword
  shows "(dgt (double_of_int total_count) B \<longrightarrow>
            dsub (double_of_int total_count) B \<noteq> Fin 0) \<and>
         (\<forall>b. B = Fin b \<and> \<bar>b\<bar> \<le> DBL_MAX \<and> b < real_of_int (sint total_count) \<and>
               int (unat C) \<le> sint total_count \<longrightarrow>
            real_of_int (sint total_count) - b \<noteq> 0 \<and>
            calc_risk_out total_count C B =
              finite_result (real_of_int (sint total_count - int (unat C)) /
                             (real_of_int (sint total_count) - b))) \<and>
         (B = NegInf \<longrightarrow> calc_risk_out total_count C B = Fin 0) \<and>
         (\<not> dgt (double_of_int total_count) B \<longrightarrow> calc_risk_out total_count C B = Fin 1) \<and>
         calc_risk_out total_count C (double_of_int total_count) = Fin 1"
proof (intro conjI allI impI)
  assume "dgt (double_of_int total_count) B"
  then show "dsub (double_of_int total_count) B \<noteq> Fin 0"
    unfolding double_of_int_def by (rule dgt_Fin_divisor)
next
  fix b
  assume "B = Fin b \<and> \<bar>b\<bar> \<le> DBL_MAX \<and> b < real_of_int (sint total_count) \<and>
    int (unat C) \<le> sint total_count"
  then show "real_of_int (sint total_count) - b \<noteq> 0"
    by simp
next
  fix b
  let ?t = "real_of_int (sint total_count)"
  assume a: "B = Fin b \<and> \<bar>b\<bar> \<le> DBL_MAX \<and> b < ?t \<and> int (unat C) \<le> sint total_count"
  have "sint total_count < 2 ^ 31"
    using sint_range_size [of total_count] by (simp add: word_size)
  then have "sint total_count \<le> 2147483647"
    by simp
  then have "?t \<le> 2147483647"
    by (metis of_int_le_iff of_int_numeral)
  moreover have "- b \<le> DBL_MAX"
    using a by (simp add: abs_le_iff)
  moreover have "(2147483647::real) < 2 ^ 64"
    by simp
  ultimately have "?t - b < DBL_MAX + 2 ^ 64"
    by linarith
  then have "?t - b < overflow_threshold"
    using DBL_MAX_threshold by (rule less_trans)
  then have sub: "dsub (double_of_int total_count) (Fin b) = Fin (?t - b)"
    using a by (simp add: dsub_def double_of_int_def finite_result_pos)
  have d: "double_of_uword (uword_of_int total_count - C) =
      Fin (real_of_int (sint total_count - int (unat C)))"
    using a by (simp add: double_of_total_minus_C)
  have "dgt (double_of_int total_count) (Fin b)"
    using a by (simp add: double_of_int_def)
  then show "calc_risk_out total_count C B =
      finite_result (real_of_int (sint total_count - int (unat C)) / (?t - b))"
    using a by (simp add: calc_risk_out_def sub d)
next
  assume "B = NegInf"
  then show "calc_risk_out total_count C B = Fin 0"
    by (simp add: calc_risk_out_def double_of_int_def double_of_uword_def dsub_def)
next
  assume "\<not> dgt (double_of_int total_count) B"
  then show "calc_risk_out total_count C B = Fin 1"
    by (simp add: calc_risk_out_def)
next
  show "calc_risk_out total_count C (double_of_int total_count) = Fin 1"
    by (simp add: calc_risk_out_def double_of_int_def)
qed

text \<open>Total 8: a zone with count 3 and baseline 2, then the whole table with baseline 8 and 9.\<close>

theorem calc_risk_out_cases_witness:
  "\<bar>2 :: real\<bar> \<le> DBL_MAX \<and> int (unat (3::uword)) \<le> sint (8::cint) \<and>
   calc_risk_out 8 3 (Fin 2) = Fin (5 / 6) \<and> calc_risk_out 8 8 (Fin 8) = Fin 1 \<and>
   calc_risk_out 8 8 (Fin 9) = Fin 1"
proof -
  have a: "dgt (double_of_int 8) (Fin 2)" "\<not> dgt (double_of_int 8) (Fin 8)"
    "\<not> dgt (double_of_int 8) (Fin 9)"
    by (simp_all add: double_of_int_def)
  have m: "\<bar>2 :: real\<bar> \<le> DBL_MAX"
    using DBL_MAX_large by simp
  have "calc_risk_out 8 3 (Fin 2) = finite_result (5 / 6)"
    using calc_risk_out_cases [of 8 "Fin 2" 3] m by simp
  then have "calc_risk_out 8 3 (Fin 2) = Fin (5 / 6)"
    by (simp add: finite_result_small)
  moreover have "calc_risk_out 8 8 (Fin 8) = Fin 1"
    using calc_risk_out_cases [of 8 "Fin 8" 8] a by blast
  moreover have "calc_risk_out 8 8 (Fin 9) = Fin 1"
    using calc_risk_out_cases [of 8 "Fin 9" 8] a by blast
  ultimately show ?thesis
    using m by simp
qed

text \<open>
  The only count is \<open>2 ^ 32 + 8\<close> and the baseline is 4. The constructor stores the total
  count 8, the in-zone count is \<open>2 ^ 32 + 8\<close>, and \<open>m_total_count > B\<close>; the difference
  \<open>m_total_count - C\<close> is \<open>2 ^ 64 - 2 ^ 32\<close>, and the out-of-zone risk is a quarter of it,
  not \<open>(8 - (2 ^ 32 + 8)) / (8 - 4)\<close>.
\<close>

lemma scenario_wrap_tables:
  "m_counts scenario_wrap = [[4294967304]]"
  "m_baselines scenario_wrap = [[Fin 4]]"
  "m_total_count scenario_wrap = 8"
  by (simp_all add: scenario_wrap_def PBPOIabstract_def cumsum_def cumsum_dbl_def accu_def
      int_of_uword_def finite_result_small)

theorem calc_risk_out_wrap_counterexample:
  "m_total_count scenario_wrap = 8 \<and>
   in_zone_sums scenario_wrap [0] [0] = Inr (4294967304, Fin 4) \<and>
   dgt (double_of_int 8) (Fin 4) \<and>
   calc_risk_out 8 4294967304 (Fin 4) = Fin 4611686017353646080 \<and>
   calc_risk_out 8 4294967304 (Fin 4) \<noteq> Fin ((8 - 4294967304) / (8 - 4))"
proof -
  have s: "in_zone_sums scenario_wrap [0] [0] = Inr (4294967304, Fin 4)"
    by (simp add: in_zone_sums_def scenario_wrap_tables tail_1_def submat_def accu_def
        accu_dbl_def finite_result_small)
  have r: "calc_risk_out 8 4294967304 (Fin 4) = Fin 4611686017353646080"
    by (simp add: calc_risk_out_def double_of_uword_def double_of_int_def uword_of_int_def
        dsub_def finite_result_small)
  show ?thesis
    using s r by (simp add: scenario_wrap_tables double_of_int_def)
qed

subsection \<open>The relative risk inside the zone\<close>



section \<open>Storage\<close>

subsection \<open>The storage index\<close>

text \<open>
  Claim C10. \<open>store_max\<close> and \<open>store_sim\<close> do not look at \<open>storage_index\<close>: with any two
  values of it, each returns the same object, so the same slot 0 and the same slot of the
  current simulation round.
\<close>

theorem store_index_unused:
  "store_max st i score q_in q_out zone_nr duration =
     store_max st j score q_in q_out zone_nr duration \<and>
   store_sim st i score q_in q_out zone_nr duration =
     store_sim st j score q_in q_out zone_nr duration"
  by (simp add: store_max_def store_sim_def)

subsection \<open>Comparing doubles, reading and writing vectors\<close>

lemma dgt_irrefl: "\<not> dgt a a"
  by (cases a) simp_all

lemma dgt_trans: "dgt a b \<Longrightarrow> dgt b c \<Longrightarrow> dgt a c"
  by (cases a; cases b; cases c) simp_all

lemma dgt_asym: "dgt a b \<Longrightarrow> \<not> dgt b a"
  by (cases a; cases b) simp_all

lemma dgt_NegInf: "\<not> dgt NegInf a"
  by (cases a) simp_all

lemma in_bounds_assign: "in_bounds j (assign v i x) = in_bounds j v"
  by (simp add: in_bounds_def assign_def)

lemma length_assign: "length (assign v i x) = length v"
  by (simp add: assign_def)

lemma elem_assign_same: "in_bounds i v \<Longrightarrow> elem (assign v i x) i = x"
  by (simp add: in_bounds_def assign_def elem_def)

lemma nat_sint_eq:
  fixes i j :: cint
  shows "0 \<le> sint i \<Longrightarrow> 0 \<le> sint j \<Longrightarrow> nat (sint i) = nat (sint j) \<Longrightarrow> i = j"
  by (metis nat_eq_iff2 signed_word_eqI)

lemma elem_assign_other:
  "0 \<le> sint i \<Longrightarrow> 0 \<le> sint j \<Longrightarrow> i \<noteq> j \<Longrightarrow> elem (assign v i x) j = elem v j"
proof -
  assume "0 \<le> sint i" "0 \<le> sint j" "i \<noteq> j"
  then have "nat (sint i) \<noteq> nat (sint j)"
    using nat_sint_eq [of i j] by blast
  then show ?thesis
    by (simp add: assign_def elem_def)
qed

lemma in_bounds_0: "in_bounds 0 v = (v \<noteq> [])"
  by (simp add: in_bounds_def)

subsection \<open>Scenario A, evaluated\<close>

lemma set_size_1: "set_size u (Suc 0) = [u 0]"
  by (simp add: set_size_def)

lemma set_size_2: "set_size u 2 = [u 0, u 1]"
  by (simp add: set_size_def numeral_2_eq_2)

lemma replicate_2: "replicate 2 x = [x, x]"
  by (simp add: numeral_2_eq_2)

lemma cumsum_scenario_A: "cumsum [[3, 5]] = [[3, 8]]"
  by (simp add: cumsum_def)

lemma cumsum_dbl_scenario_A: "cumsum_dbl [[Fin 2, Fin 2]] = [[Fin 2, Fin 4]]"
  by (simp add: cumsum_dbl_def finite_result_small)

lemma total_scenario_A: "int_of_uword (accu [3, 5]) = 8"
  by (simp add: accu_def int_of_uword_def)


lemma scenario_A_max:
  "scenario_A False =
     \<lparr>m_counts = [[3, 8]], m_baselines = [[Fin 2, Fin 4]], m_baselines_orig = [[Fin 2, Fin 2]],
      m_total_count = 8, m_out_length = 1, m_num_mcsim = 2, m_mcsim_index = 0,
      m_scores = [NegInf], m_relrisk_in = [NaN], m_relrisk_out = [NaN],
      m_zone_numbers = [0], m_durations = [0],
      sim_scores = [NegInf, NegInf], sim_relrisk_in = [NaN, NaN], sim_relrisk_out = [NaN, NaN],
      sim_zone_numbers = [0, 0], sim_durations = [0, 0], store = Store_max\<rparr>"
  by (simp add: scenario_A_def PBPOIabstract_def example_base_def set_size_1 set_size_2
      uninitialised_def
      replicate_2 cumsum_scenario_A cumsum_dbl_scenario_A
      total_scenario_A)

lemma scenario_A_all:
  "scenario_A True =
     \<lparr>m_counts = [[3, 8]], m_baselines = [[Fin 2, Fin 4]], m_baselines_orig = [[Fin 2, Fin 2]],
      m_total_count = 8, m_out_length = 2, m_num_mcsim = 2, m_mcsim_index = 0,
      m_scores = [NegInf, NegInf], m_relrisk_in = [NaN, NaN], m_relrisk_out = [NaN, NaN],
      m_zone_numbers = [0, 0], m_durations = [0, 0],
      sim_scores = [NegInf, NegInf], sim_relrisk_in = [NaN, NaN], sim_relrisk_out = [NaN, NaN],
      sim_zone_numbers = [0, 0], sim_durations = [0, 0], store = Store_all\<rparr>"
  by (simp add: scenario_A_def PBPOIabstract_def example_base_def set_size_1 set_size_2
      uninitialised_def
      replicate_2 cumsum_scenario_A cumsum_dbl_scenario_A
      total_scenario_A)

subsection \<open>Keeping the maximum\<close>

lemma store_max_cases:
  assumes "store_max st i s qi qo z d = Inr st'"
  shows "(dgt s (elem (m_scores st) 0) \<and> row (get_scan st') 0 = (z, d, s, qi, qo) \<and>
          valid_slot st 0) \<or>
         (\<not> dgt s (elem (m_scores st) 0) \<and> st' = st)"
  using assms
  by (auto simp: store_max_def valid_slot_def row_def get_scan_def elem_assign_same
      split: if_splits)

lemma store_max_total:
  "valid_slot st 0 \<Longrightarrow> \<exists>st'. store_max st i s qi qo z d = Inr st' \<and> valid_slot st' 0"
  by (simp add: store_max_def valid_slot_def in_bounds_assign)

lemma store_each_max_total:
  "valid_slot st 0 \<Longrightarrow> \<exists>st'. store_each Store_max st cs = Inr st'"
proof (induction cs arbitrary: st)
  case Nil
  show ?case by simp
next
  case (Cons c cs)
  obtain i s qi qo z d where c: "c = (i, s, qi, qo, z, d)"
    by (cases c)
  obtain st1 where "store_max st i s qi qo z d = Inr st1" "valid_slot st1 0"
    using store_max_total [OF Cons.prems] by blast
  then show ?case
    using Cons.IH [of st1] by (simp add: c call_store_def)
qed

lemma store_each_max_greatest:
  "store_each Store_max st cs = Inr st' \<Longrightarrow>
   (st' = st \<and> (\<forall>c \<in> set cs. \<not> dgt (stored_score c) (elem (m_scores st) 0))) \<or>
   (\<exists>k<length cs.
      row (get_scan st') 0 = stored_row (cs ! k) \<and>
      dgt (stored_score (cs ! k)) (elem (m_scores st) 0) \<and>
      (\<forall>j<length cs. \<not> dgt (stored_score (cs ! j)) (stored_score (cs ! k))) \<and>
      (\<forall>j<k. stored_score (cs ! j) \<noteq> stored_score (cs ! k)))"
proof (induction cs arbitrary: st)
  case Nil
  then show ?case by simp
next
  case (Cons c cs)
  obtain i s qi qo z d where c: "c = (i, s, qi, qo, z, d)"
    by (cases c)
  let ?s0 = "elem (m_scores st) 0"
  from Cons.prems obtain st1 where
    step: "store_max st i s qi qo z d = Inr st1" and rest: "store_each Store_max st1 cs = Inr st'"
    by (auto simp: c call_store_def split: sum.splits)
  have sc: "stored_score c = s" and sr: "stored_row c = (z, d, s, qi, qo)"
    by (simp_all add: c stored_score_def stored_row_def)
  note IH = Cons.IH [OF rest]
  from store_max_cases [OF step] show ?case
  proof (elim disjE conjE)
    assume g: "dgt s ?s0" and r: "row (get_scan st1) 0 = (z, d, s, qi, qo)"
    have s1: "elem (m_scores st1) 0 = s"
      using r by (simp add: row_def get_scan_def)
    from IH show ?thesis
    proof (elim disjE conjE exE)
      assume e: "st' = st1" and n: "\<forall>c\<in>set cs. \<not> dgt (stored_score c) (elem (m_scores st1) 0)"
      have "\<forall>j<length (c # cs). \<not> dgt (stored_score ((c # cs) ! j)) s"
        using n s1 dgt_irrefl [of s] by (auto simp: nth_Cons' sc)
      then have "row (get_scan st') 0 = stored_row ((c # cs) ! 0) \<and>
          dgt (stored_score ((c # cs) ! 0)) ?s0 \<and>
          (\<forall>j<length (c # cs). \<not> dgt (stored_score ((c # cs) ! j)) (stored_score ((c # cs) ! 0))) \<and>
          (\<forall>j<0. stored_score ((c # cs) ! j) \<noteq> stored_score ((c # cs) ! 0))"
        using g r e by (simp add: sc sr)
      then show ?thesis by blast
    next
      fix k
      assume k: "k < length cs" "row (get_scan st') 0 = stored_row (cs ! k)"
        "dgt (stored_score (cs ! k)) (elem (m_scores st1) 0)"
        "\<forall>j<length cs. \<not> dgt (stored_score (cs ! j)) (stored_score (cs ! k))"
        "\<forall>j<k. stored_score (cs ! j) \<noteq> stored_score (cs ! k)"
      let ?sk = "stored_score (cs ! k)"
      have gk: "dgt ?sk s" using k(3) s1 by simp
      have a: "dgt ?sk ?s0" using gk g by (rule dgt_trans)
      have b: "\<not> dgt s ?sk" using gk by (rule dgt_asym)
      have d: "s \<noteq> ?sk" using gk dgt_irrefl by auto
      have "\<forall>j<length (c # cs). \<not> dgt (stored_score ((c # cs) ! j)) ?sk"
        using k(4) b by (auto simp: nth_Cons' sc)
      moreover have "\<forall>j<Suc k. stored_score ((c # cs) ! j) \<noteq> ?sk"
        using k(5) d by (auto simp: nth_Cons' sc)
      ultimately have "Suc k < length (c # cs) \<and>
          row (get_scan st') 0 = stored_row ((c # cs) ! Suc k) \<and>
          dgt (stored_score ((c # cs) ! Suc k)) ?s0 \<and>
          (\<forall>j<length (c # cs). \<not> dgt (stored_score ((c # cs) ! j)) (stored_score ((c # cs) ! Suc k))) \<and>
          (\<forall>j<Suc k. stored_score ((c # cs) ! j) \<noteq> stored_score ((c # cs) ! Suc k))"
        using k(1,2) a by simp
      then show ?thesis by blast
    qed
  next
    assume g: "\<not> dgt s ?s0" and e1: "st1 = st"
    from IH show ?thesis
    proof (elim disjE conjE exE)
      assume "st' = st1" "\<forall>c\<in>set cs. \<not> dgt (stored_score c) (elem (m_scores st1) 0)"
      then show ?thesis using g e1 by (simp add: sc)
    next
      fix k
      assume k: "k < length cs" "row (get_scan st') 0 = stored_row (cs ! k)"
        "dgt (stored_score (cs ! k)) (elem (m_scores st1) 0)"
        "\<forall>j<length cs. \<not> dgt (stored_score (cs ! j)) (stored_score (cs ! k))"
        "\<forall>j<k. stored_score (cs ! j) \<noteq> stored_score (cs ! k)"
      let ?sk = "stored_score (cs ! k)"
      have a: "dgt ?sk ?s0" using k(3) e1 by simp
      have b: "\<not> dgt s ?sk" using a g dgt_trans by blast
      have d: "s \<noteq> ?sk" using a g by auto
      have "\<forall>j<length (c # cs). \<not> dgt (stored_score ((c # cs) ! j)) ?sk"
        using k(4) b by (auto simp: nth_Cons' sc)
      moreover have "\<forall>j<Suc k. stored_score ((c # cs) ! j) \<noteq> ?sk"
        using k(5) d by (auto simp: nth_Cons' sc)
      ultimately have "Suc k < length (c # cs) \<and>
          row (get_scan st') 0 = stored_row ((c # cs) ! Suc k) \<and>
          dgt (stored_score ((c # cs) ! Suc k)) ?s0 \<and>
          (\<forall>j<length (c # cs). \<not> dgt (stored_score ((c # cs) ! j)) (stored_score ((c # cs) ! Suc k))) \<and>
          (\<forall>j<Suc k. stored_score ((c # cs) ! j) \<noteq> stored_score ((c # cs) ! Suc k))"
        using k(1,2) a by simp
      then show ?thesis by blast
    qed
  qed
qed

text \<open>
  Claim C4. With slot 0 inside the five result vectors, \<open>store_max\<close> returns: when the new
  score is strictly greater than the score in slot 0, the five entries of slot 0 are the
  five new values, and otherwise nothing changes. After any sequence of calls, either no
  score of the sequence was strictly greater than the score slot 0 started with, and the
  object is as it was; or slot 0 holds the values of one call of the sequence, no call had
  a strictly greater score, and no earlier call had the same score.
\<close>

theorem store_max_retains_greatest:
  assumes "valid_slot st 0"
  shows "(\<exists>st1. store_max st i s qi qo z d = Inr st1 \<and>
            (if dgt s (elem (m_scores st) 0) then row (get_scan st1) 0 = (z, d, s, qi, qo)
             else st1 = st)) \<and>
         (\<exists>st'. store_each Store_max st cs = Inr st' \<and>
            (if \<forall>c \<in> set cs. \<not> dgt (stored_score c) (elem (m_scores st) 0) then st' = st
             else \<exists>k<length cs.
                    row (get_scan st') 0 = stored_row (cs ! k) \<and>
                    dgt (stored_score (cs ! k)) (elem (m_scores st) 0) \<and>
                    (\<forall>j<length cs. \<not> dgt (stored_score (cs ! j)) (stored_score (cs ! k))) \<and>
                    (\<forall>j<k. stored_score (cs ! j) \<noteq> stored_score (cs ! k))))"
proof -
  let ?s0 = "elem (m_scores st) 0"
  obtain st1 where s1: "store_max st i s qi qo z d = Inr st1"
    using store_max_total [OF assms] by blast
  from store_max_cases [OF s1] have
    "if dgt s ?s0 then row (get_scan st1) 0 = (z, d, s, qi, qo) else st1 = st"
    by auto
  with s1 have step: "\<exists>st1. store_max st i s qi qo z d = Inr st1 \<and>
      (if dgt s ?s0 then row (get_scan st1) 0 = (z, d, s, qi, qo) else st1 = st)"
    by blast
  let ?none = "\<forall>c \<in> set cs. \<not> dgt (stored_score c) ?s0"
  let ?some = "\<lambda>st'. \<exists>k<length cs.
                    row (get_scan st') 0 = stored_row (cs ! k) \<and>
                    dgt (stored_score (cs ! k)) ?s0 \<and>
                    (\<forall>j<length cs. \<not> dgt (stored_score (cs ! j)) (stored_score (cs ! k))) \<and>
                    (\<forall>j<k. stored_score (cs ! j) \<noteq> stored_score (cs ! k))"
  obtain st' where s: "store_each Store_max st cs = Inr st'"
    using store_each_max_total [OF assms] by blast
  from store_each_max_greatest [OF s] have d: "(st' = st \<and> ?none) \<or> ?some st'" .
  have "if ?none then st' = st else ?some st'"
  proof (cases ?none)
    case True
    then have "\<not> ?some st'"
      using nth_mem by blast
    with d True show ?thesis by simp
  next
    case False
    with d show ?thesis by auto
  qed
  with s have "\<exists>st'. store_each Store_max st cs = Inr st' \<and>
      (if ?none then st' = st else ?some st')"
    by blast
  with step show ?thesis
    by (rule conjI)
qed

text \<open>
  Scenario B of the specification: two candidates with the score 5.2, given in that order
  to the object of Scenario A; slot 0 holds the first.
\<close>

theorem store_max_retains_greatest_witness:
  "valid_slot (scenario_A False) 0 \<and>
   (\<exists>st'. store_each Store_max (scenario_A False)
            [(0, Fin (26 / 5), Fin 2, Fin 1, 1, 1), (1, Fin (26 / 5), Fin 3, Fin 1, 2, 2)] =
              Inr st' \<and>
          row (get_scan st') 0 = (1, 1, Fin (26 / 5), Fin 2, Fin 1))"
proof -
  let ?cs = "[(0, Fin (26 / 5), Fin 2, Fin 1, 1, 1), (1, Fin (26 / 5), Fin 3, Fin 1, 2, 2)]
               :: stored list"
  have v: "valid_slot (scenario_A False) 0"
    by (simp add: scenario_A_max valid_slot_def in_bounds_def)
  have e: "elem (m_scores (scenario_A False)) 0 = NegInf"
    by (simp add: scenario_A_max elem_def)
  have n: "\<not> (\<forall>c \<in> set ?cs. \<not> dgt (stored_score c) (elem (m_scores (scenario_A False)) 0))"
    by (simp add: e stored_score_def)
  from store_max_retains_greatest [OF v, of _ _ _ _ _ _ ?cs] obtain st' k where
    s: "store_each Store_max (scenario_A False) ?cs = Inr st'" and
    k: "k < length ?cs" "row (get_scan st') 0 = stored_row (?cs ! k)"
       "\<forall>j<k. stored_score (?cs ! j) \<noteq> stored_score (?cs ! k)"
    using n by (metis (no_types, lifting))
  have "k = 0"
  proof (rule ccontr)
    assume "k \<noteq> 0"
    then have "k = 1" using k(1) by simp
    then show False using k(3) [rule_format, of 0] by (simp add: stored_score_def)
  qed
  then have "row (get_scan st') 0 = (1, 1, Fin (26 / 5), Fin 2, Fin 1)"
    using k(2) by (simp add: stored_row_def)
  with s v show ?thesis by blast
qed

subsection \<open>Keeping everything\<close>

text \<open>An index below \<open>2 ^ 31\<close> is the \<open>int\<close> of the same value.\<close>

lemma sint_index:
  assumes "i < 2 ^ 31"
  shows "sint (word_of_nat i :: cint) = int i"
proof -
  have "int i < 2 ^ 31"
    using assms by (metis of_nat_less_iff of_nat_numeral of_nat_power)
  then have "signed_take_bit 31 (int i) = int i"
    by (simp add: signed_take_bit_int_eq_self)
  then show ?thesis
    by (simp add: signed_of_nat)
qed

lemma index_inj:
  "i < 2 ^ 31 \<Longrightarrow> j < 2 ^ 31 \<Longrightarrow> (word_of_nat i :: cint) = word_of_nat j \<Longrightarrow> i = j"
proof -
  assume "i < 2 ^ 31" "j < 2 ^ 31" "(word_of_nat i :: cint) = word_of_nat j"
  then have "int i = int j"
    using sint_index [of i] sint_index [of j] by (simp only:)
  then show "i = j"
    by (simp only: of_nat_eq_iff)
qed

lemma in_bounds_index:
  "i < length v \<Longrightarrow> length v < 2 ^ 31 \<Longrightarrow> in_bounds (word_of_nat i) v"
proof -
  assume a: "i < length v" "length v < 2 ^ 31"
  then have "i < 2 ^ 31"
    by (rule less_trans)
  then have "sint (word_of_nat i :: cint) = int i"
    by (rule sint_index)
  then show ?thesis
    using a(1) by (simp add: in_bounds_def)
qed

lemma store_all_cases:
  assumes "store_all st i s qi qo z d = Inr st'"
  shows "valid_slot st i \<and> row (get_scan st') i = (z, d, s, qi, qo) \<and>
         (\<forall>j. 0 \<le> sint j \<and> j \<noteq> i \<longrightarrow> row (get_scan st') j = row (get_scan st) j) \<and>
         (\<forall>n. has_rows (get_scan st') n = has_rows (get_scan st) n) \<and>
         (\<forall>j. valid_slot st' j = valid_slot st j)"
proof -
  from assms have v: "valid_slot st i"
    by (simp add: store_all_def valid_slot_def split: if_splits)
  then have i: "0 \<le> sint i"
    by (simp add: valid_slot_def in_bounds_def)
  from assms v have st': "st' = st\<lparr>m_scores := assign (m_scores st) i s,
                  m_relrisk_in := assign (m_relrisk_in st) i qi,
                  m_relrisk_out := assign (m_relrisk_out st) i qo,
                  m_zone_numbers := assign (m_zone_numbers st) i z,
                  m_durations := assign (m_durations st) i d\<rparr>"
    by (simp add: store_all_def valid_slot_def split: if_splits)
  have a: "row (get_scan st') i = (z, d, s, qi, qo)"
    using v by (simp add: st' row_def get_scan_def valid_slot_def elem_assign_same)
  have b: "\<forall>j. 0 \<le> sint j \<and> j \<noteq> i \<longrightarrow> row (get_scan st') j = row (get_scan st) j"
  proof (intro allI impI)
    fix j :: cint
    assume "0 \<le> sint j \<and> j \<noteq> i"
    then have n: "0 \<le> sint j" "i \<noteq> j"
      by auto
    show "row (get_scan st') j = row (get_scan st) j"
      by (simp add: st' row_def get_scan_def elem_assign_other [OF i n])
  qed
  have c: "\<forall>n. has_rows (get_scan st') n = has_rows (get_scan st) n"
    by (simp add: st' has_rows_def get_scan_def length_assign)
  have e: "\<forall>j. valid_slot st' j = valid_slot st j"
    by (simp add: st' valid_slot_def in_bounds_assign)
  from v a b c e show ?thesis by blast
qed

lemma store_all_total:
  "valid_slot st i \<Longrightarrow> \<exists>st'. store_all st i s qi qo z d = Inr st'"
  by (simp add: store_all_def valid_slot_def)

lemma store_each_all:
  "\<forall>c \<in> set cs. valid_slot st (fst c) \<Longrightarrow> distinct (map fst cs) \<Longrightarrow>
   \<exists>st'. store_each Store_all st cs = Inr st' \<and>
     (\<forall>n. has_rows (get_scan st') n = has_rows (get_scan st) n) \<and>
     (\<forall>c \<in> set cs. row (get_scan st') (fst c) = stored_row c) \<and>
     (\<forall>j. 0 \<le> sint j \<and> j \<notin> fst ` set cs \<longrightarrow> row (get_scan st') j = row (get_scan st) j)"
proof (induction cs arbitrary: st)
  case Nil
  then show ?case by simp
next
  case (Cons c cs)
  obtain i s qi qo z d where c: "c = (i, s, qi, qo, z, d)"
    by (cases c)
  have vi: "valid_slot st i"
    using Cons.prems(1) by (simp add: c)
  then have i0: "0 \<le> sint i"
    by (simp add: valid_slot_def in_bounds_def)
  obtain st1 where s1: "store_all st i s qi qo z d = Inr st1"
    using store_all_total [OF vi] by blast
  note f = store_all_cases [OF s1]
  have "\<forall>c \<in> set cs. valid_slot st1 (fst c)"
    using Cons.prems(1) f by simp
  moreover have "distinct (map fst cs)"
    using Cons.prems(2) by simp
  ultimately obtain st' where
    s: "store_each Store_all st1 cs = Inr st'" and
    h: "\<forall>n. has_rows (get_scan st') n = has_rows (get_scan st1) n" and
    r: "\<forall>c \<in> set cs. row (get_scan st') (fst c) = stored_row c" and
    o: "\<forall>j. 0 \<le> sint j \<and> j \<notin> fst ` set cs \<longrightarrow> row (get_scan st') j = row (get_scan st1) j"
    using Cons.IH [of st1] by blast
  have ni: "i \<notin> fst ` set cs"
    using Cons.prems(2) by (simp add: c)
  have "store_each Store_all st (c # cs) = Inr st'"
    using s1 s by (simp add: c call_store_def)
  moreover have "\<forall>n. has_rows (get_scan st') n = has_rows (get_scan st) n"
    using h f by simp
  moreover have "row (get_scan st') (fst c) = stored_row c"
    using o i0 ni f by (simp add: c stored_row_def)
  moreover have "\<forall>j. 0 \<le> sint j \<and> j \<notin> fst ` set (c # cs) \<longrightarrow>
      row (get_scan st') j = row (get_scan st) j"
    using o f by (simp add: c)
  ultimately show ?case
    using r by auto
qed

text \<open>
  Claim C6. On a result table of \<open>n\<close> rows, \<open>store_all\<close> called on \<open>n\<close> candidates with the
  storage indices \<open>0, ..., n - 1\<close> returns, the table still has \<open>n\<close> rows, and row \<open>k\<close> holds
  the five values given with index \<open>k\<close>. One call, at a valid slot, writes its five values
  into the row of its index and leaves every other row as it was.
\<close>

theorem store_all_fills_table:
  assumes "has_rows (get_scan st) n" and "n < 2 ^ 31" and "length cs = n"
    and "\<forall>k<n. fst (cs ! k) = word_of_nat k"
  shows "(\<exists>st'. store_each Store_all st cs = Inr st' \<and> has_rows (get_scan st') n \<and>
            (\<forall>k<n. row (get_scan st') (word_of_nat k) = stored_row (cs ! k))) \<and>
         (valid_slot st i \<longrightarrow>
            (\<exists>st1. store_all st i s qi qo z d = Inr st1 \<and>
               row (get_scan st1) i = (z, d, s, qi, qo) \<and>
               (\<forall>j. 0 \<le> sint j \<and> j \<noteq> i \<longrightarrow> row (get_scan st1) j = row (get_scan st) j)))"
proof -
  have len: "length (m_scores st) = n" "length (m_relrisk_in st) = n"
    "length (m_relrisk_out st) = n" "length (m_zone_numbers st) = n" "length (m_durations st) = n"
    using assms(1) by (simp_all add: has_rows_def get_scan_def)
  have v: "valid_slot st (word_of_nat k)" if "k < n" for k
    using that assms(2) len by (simp add: valid_slot_def in_bounds_index)
  have fsts: "map fst cs = map word_of_nat [0..<n]"
    using assms(3,4) by (simp add: list_eq_iff_nth_eq)
  have "inj_on (word_of_nat :: nat \<Rightarrow> cint) (set [0..<n])"
  proof (rule inj_onI)
    fix a b :: nat
    assume "a \<in> set [0..<n]" "b \<in> set [0..<n]" "(word_of_nat a :: cint) = word_of_nat b"
    then show "a = b"
      using assms(2) index_inj [of a b] by simp
  qed
  then have dist: "distinct (map fst cs)"
    unfolding fsts by (simp add: distinct_map)
  have "\<forall>c \<in> set cs. valid_slot st (fst c)"
  proof
    fix c
    assume "c \<in> set cs"
    then obtain k where "k < n" "c = cs ! k"
      using assms(3) by (metis in_set_conv_nth)
    then show "valid_slot st (fst c)"
      using v assms(4) by simp
  qed
  from store_each_all [OF this dist] obtain st' where
    s: "store_each Store_all st cs = Inr st'" and
    h: "\<forall>n. has_rows (get_scan st') n = has_rows (get_scan st) n" and
    r: "\<forall>c \<in> set cs. row (get_scan st') (fst c) = stored_row c"
    by blast
  have "\<forall>k<n. row (get_scan st') (word_of_nat k) = stored_row (cs ! k)"
    using r assms(3,4) by (metis nth_mem)
  with s h assms(1) have seq: "\<exists>st'. store_each Store_all st cs = Inr st' \<and>
      has_rows (get_scan st') n \<and>
      (\<forall>k<n. row (get_scan st') (word_of_nat k) = stored_row (cs ! k))"
    by blast
  have one: "valid_slot st i \<longrightarrow>
            (\<exists>st1. store_all st i s qi qo z d = Inr st1 \<and>
               row (get_scan st1) i = (z, d, s, qi, qo) \<and>
               (\<forall>j. 0 \<le> sint j \<and> j \<noteq> i \<longrightarrow> row (get_scan st1) j = row (get_scan st) j))"
    using store_all_total [of st i s qi qo z d] store_all_cases [of st i s qi qo z d]
    by blast
  from seq one show ?thesis
    by (rule conjI)
qed

text \<open>The two candidates of Scenario A, stored in the table of two rows.\<close>

theorem store_all_fills_table_witness:
  "has_rows (get_scan (scenario_A True)) 2 \<and>
   (\<exists>st'. store_each Store_all (scenario_A True)
            [(0, Fin 7, Fin 2, Fin 1, 1, 1), (1, Fin 5, Fin 3, Fin 1, 1, 2)] = Inr st' \<and>
          has_rows (get_scan st') 2 \<and>
          row (get_scan st') 0 = (1, 1, Fin 7, Fin 2, Fin 1) \<and>
          row (get_scan st') 1 = (1, 2, Fin 5, Fin 3, Fin 1))"
proof -
  let ?cs = "[(0, Fin 7, Fin 2, Fin 1, 1, 1), (1, Fin 5, Fin 3, Fin 1, 1, 2)] :: stored list"
  have h: "has_rows (get_scan (scenario_A True)) 2"
    by (simp add: scenario_A_all has_rows_def get_scan_def)
  have n: "(2::nat) < 2 ^ 31" "length ?cs = 2"
    by simp_all
  have f: "\<forall>k<2. fst (?cs ! k) = word_of_nat k"
    by (simp add: less_2_cases_iff)
  from store_all_fills_table [OF h n f] obtain st' where
    s: "store_each Store_all (scenario_A True) ?cs = Inr st'" "has_rows (get_scan st') 2" and
    r: "\<forall>k<2. row (get_scan st') (word_of_nat k) = stored_row (?cs ! k)"
    by blast
  have "row (get_scan st') 0 = (1, 1, Fin 7, Fin 2, Fin 1)"
    using r [rule_format, of 0] by (simp add: stored_row_def)
  moreover have "row (get_scan st') 1 = (1, 2, Fin 5, Fin 3, Fin 1)"
    using r [rule_format, of 1] by (simp add: stored_row_def)
  ultimately show ?thesis
    using h s by blast
qed

subsection \<open>Keeping the maximum of each simulation round\<close>

lemma store_sim_cases:
  assumes "store_sim st i s qi qo z d = Inr st'"
  shows "m_mcsim_index st' = m_mcsim_index st \<and>
         (\<forall>r. 0 \<le> sint r \<and> r \<noteq> m_mcsim_index st \<longrightarrow>
              row (get_mcsim st') r = row (get_mcsim st) r) \<and>
         (\<forall>j. valid_sim_slot st' j = valid_sim_slot st j) \<and>
         (if dgt s (elem (sim_scores st) (m_mcsim_index st))
          then row (get_mcsim st') (m_mcsim_index st) = (z, d, s, qi, qo)
          else st' = st)"
proof (cases "dgt s (elem (sim_scores st) (m_mcsim_index st))")
  case False
  with assms have "st' = st"
    by (simp add: store_sim_def Let_def split: if_splits)
  with False show ?thesis by simp
next
  case True
  let ?k = "m_mcsim_index st"
  from assms True have v: "valid_sim_slot st ?k"
    by (simp add: store_sim_def Let_def valid_sim_slot_def split: if_splits)
  then have k: "0 \<le> sint ?k"
    by (simp add: valid_sim_slot_def in_bounds_def)
  from assms True v have st': "st' = st\<lparr>sim_scores := assign (sim_scores st) ?k s,
                        sim_relrisk_in := assign (sim_relrisk_in st) ?k qi,
                        sim_relrisk_out := assign (sim_relrisk_out st) ?k qo,
                        sim_zone_numbers := assign (sim_zone_numbers st) ?k z,
                        sim_durations := assign (sim_durations st) ?k d\<rparr>"
    by (simp add: store_sim_def Let_def valid_sim_slot_def split: if_splits)
  have a: "row (get_mcsim st') ?k = (z, d, s, qi, qo)"
    using v by (simp add: st' row_def get_mcsim_def valid_sim_slot_def elem_assign_same)
  have b: "\<forall>r. 0 \<le> sint r \<and> r \<noteq> ?k \<longrightarrow> row (get_mcsim st') r = row (get_mcsim st) r"
  proof (intro allI impI)
    fix r :: cint
    assume "0 \<le> sint r \<and> r \<noteq> ?k"
    then have n: "0 \<le> sint r" "?k \<noteq> r"
      by auto
    show "row (get_mcsim st') r = row (get_mcsim st) r"
      by (simp add: st' row_def get_mcsim_def elem_assign_other [OF k n])
  qed
  have c: "\<forall>j. valid_sim_slot st' j = valid_sim_slot st j"
    by (simp add: st' valid_sim_slot_def in_bounds_assign)
  have e: "m_mcsim_index st' = ?k"
    by (simp add: st')
  from a b c e True show ?thesis by simp
qed

lemma store_sim_total:
  "valid_sim_slot st (m_mcsim_index st) \<Longrightarrow> \<exists>st'. store_sim st i s qi qo z d = Inr st'"
  by (simp add: store_sim_def valid_sim_slot_def Let_def)

lemma store_each_sim:
  "valid_sim_slot st (m_mcsim_index st) \<Longrightarrow>
   \<exists>st'. store_each Store_sim st cs = Inr st' \<and> m_mcsim_index st' = m_mcsim_index st \<and>
     (\<forall>r. 0 \<le> sint r \<and> r \<noteq> m_mcsim_index st \<longrightarrow>
          row (get_mcsim st') r = row (get_mcsim st) r)"
proof (induction cs arbitrary: st)
  case Nil
  then show ?case by simp
next
  case (Cons c cs)
  obtain i s qi qo z d where c: "c = (i, s, qi, qo, z, d)"
    by (cases c)
  obtain st1 where s1: "store_sim st i s qi qo z d = Inr st1"
    using store_sim_total [OF Cons.prems] by blast
  note f = store_sim_cases [OF s1]
  have "valid_sim_slot st1 (m_mcsim_index st1)"
    using f Cons.prems by simp
  from Cons.IH [OF this] obtain st' where
    s: "store_each Store_sim st1 cs = Inr st'" and
    k: "m_mcsim_index st' = m_mcsim_index st1" and
    r: "\<forall>r. 0 \<le> sint r \<and> r \<noteq> m_mcsim_index st1 \<longrightarrow>
          row (get_mcsim st') r = row (get_mcsim st1) r"
    by blast
  have "store_each Store_sim st (c # cs) = Inr st'"
    using s1 s by (simp add: c call_store_def)
  moreover have "m_mcsim_index st' = m_mcsim_index st"
    using k f by simp
  moreover have "\<forall>r. 0 \<le> sint r \<and> r \<noteq> m_mcsim_index st \<longrightarrow>
      row (get_mcsim st') r = row (get_mcsim st) r"
    using r f by simp
  ultimately show ?case by blast
qed

text \<open>
  Claim C5. With the slot of the current round \<open>m_mcsim_index\<close> inside the five simulation
  vectors, \<open>store_sim\<close> returns and makes the comparison of \<open>store_max\<close> on that slot: a
  strictly greater score puts the five new values there, any other score changes nothing.
  After any sequence of calls in the current round, the row of every other round \<open>r\<close> is
  what it was.
\<close>

theorem store_sim_rounds_independent:
  assumes "valid_sim_slot st (m_mcsim_index st)" and "0 \<le> sint r" and "r \<noteq> m_mcsim_index st"
  shows "(\<exists>st1. store_sim st i s qi qo z d = Inr st1 \<and>
            (if dgt s (elem (sim_scores st) (m_mcsim_index st))
             then row (get_mcsim st1) (m_mcsim_index st) = (z, d, s, qi, qo)
             else st1 = st)) \<and>
         (\<exists>st'. store_each Store_sim st cs = Inr st' \<and>
            row (get_mcsim st') r = row (get_mcsim st) r)"
proof -
  obtain st1 where s1: "store_sim st i s qi qo z d = Inr st1"
    using store_sim_total [OF assms(1)] by blast
  from store_sim_cases [OF s1] s1 have one: "\<exists>st1. store_sim st i s qi qo z d = Inr st1 \<and>
            (if dgt s (elem (sim_scores st) (m_mcsim_index st))
             then row (get_mcsim st1) (m_mcsim_index st) = (z, d, s, qi, qo)
             else st1 = st)"
    by blast
  from store_each_sim [OF assms(1), of cs] assms(2,3)
  have "\<exists>st'. store_each Store_sim st cs = Inr st' \<and>
            row (get_mcsim st') r = row (get_mcsim st) r"
    by blast
  with one show ?thesis
    by (rule conjI)
qed

text \<open>Two candidates stored in round 0 of Scenario A: the row of round 1 is untouched.\<close>

theorem store_sim_rounds_independent_witness:
  "valid_sim_slot (scenario_A False) (m_mcsim_index (scenario_A False)) \<and> 0 \<le> sint (1::cint) \<and>
   1 \<noteq> m_mcsim_index (scenario_A False) \<and>
   (\<exists>st'. store_each Store_sim (scenario_A False)
            [(0, Fin 7, Fin 2, Fin 1, 1, 1), (1, Fin 9, Fin 3, Fin 1, 1, 2)] = Inr st' \<and>
          row (get_mcsim st') 1 = (0, 0, NegInf, NaN, NaN))"
proof -
  have v: "valid_sim_slot (scenario_A False) (m_mcsim_index (scenario_A False))"
    by (simp add: scenario_A_max valid_sim_slot_def in_bounds_def)
  have r: "0 \<le> sint (1::cint)" "1 \<noteq> m_mcsim_index (scenario_A False)"
    by (simp_all add: scenario_A_max)
  have "row (get_mcsim (scenario_A False)) 1 = (0, 0, NegInf, NaN, NaN)"
    by (simp add: scenario_A_max row_def get_mcsim_def elem_def)
  with store_sim_rounds_independent [OF v r] v r show ?thesis
    by metis
qed

section \<open>From \<open>calculate\<close> to the result tables\<close>

subsection \<open>What is stored\<close>

lemma sint_increment:
  fixes z :: cint
  assumes "sint z < INT_MAX"
  shows "sint (z + 1) = sint z + 1"
proof -
  have lo: "- (2 ^ 31) \<le> sint z"
    using sint_range_size [of z] by (simp add: word_size)
  have hi: "sint z + 1 < 2 ^ 31"
    using assms by (simp add: INT_MAX_def)
  have "sint (z + 1) = signed_take_bit 31 (sint z + 1)"
    by (simp add: sint_word_ariths)
  also have "\<dots> = sint z + 1"
    using lo hi by (simp add: signed_take_bit_int_eq_self)
  finally show ?thesis .
qed

lemma calculate_eq:
  assumes "in_zone_sums st current_zone current_rows = Inr (C, B)"
    and "sint zone_nr < INT_MAX" and "sint duration < INT_MAX"
  shows "calculate st storage_index zone_nr duration current_zone current_rows =
           call_store (store st) st storage_index (calc_score (m_total_count st) C B)
             (calc_risk_in C B) (calc_risk_out (m_total_count st) C B)
             (zone_nr + 1) (duration + 1)"
  using assms by (simp add: calculate_def Let_def)

lemma calculate_Inr:
  assumes "calculate st storage_index zone_nr duration current_zone current_rows = Inr st'"
  shows "\<exists>C B. in_zone_sums st current_zone current_rows = Inr (C, B) \<and>
           sint zone_nr < INT_MAX \<and> sint duration < INT_MAX \<and>
           call_store (store st) st storage_index (calc_score (m_total_count st) C B)
             (calc_risk_in C B) (calc_risk_out (m_total_count st) C B)
             (zone_nr + 1) (duration + 1) = Inr st'"
proof -
  have z: "sint zone_nr \<le> INT_MAX" "sint duration \<le> INT_MAX"
    using sint_range_size [of zone_nr] sint_range_size [of duration]
    by (simp_all add: word_size INT_MAX_def)
  from assms obtain C B where "in_zone_sums st current_zone current_rows = Inr (C, B)"
    by (auto simp: calculate_def split: sum.splits)
  with assms z show ?thesis
    by (auto simp: calculate_def Let_def split: if_splits)
qed

text \<open>
  Claim C9. For a candidate whose in-zone sums are read without a bounds error, whose
  \<open>zone_nr\<close> and \<open>duration\<close> are below \<open>INT_MAX\<close>, and whose slot is valid, \<open>calculate\<close>
  returns; the row that \<open>get_scan\<close> (or \<open>get_mcsim\<close>) then shows for it holds \<open>zone_nr + 1\<close>,
  \<open>duration + 1\<close>, and the score and the two relative risks as computed. \<open>store_all\<close> always
  writes that row; \<open>store_max\<close> and \<open>store_sim\<close> write it when the score is strictly
  greater than the one in the slot, and change nothing otherwise.
\<close>

theorem calculate_stores_one_based:
  assumes "in_zone_sums st current_zone current_rows = Inr (C, B)"
    and "sint zone_nr < INT_MAX" and "sint duration < INT_MAX"
    and "case store st of Store_all \<Rightarrow> valid_slot st storage_index
         | Store_max \<Rightarrow> valid_slot st 0
         | Store_sim \<Rightarrow> valid_sim_slot st (m_mcsim_index st)"
  shows "\<exists>st'. calculate st storage_index zone_nr duration current_zone current_rows = Inr st' \<and>
           sint (zone_nr + 1) = sint zone_nr + 1 \<and> sint (duration + 1) = sint duration + 1 \<and>
           (let new = (zone_nr + 1, duration + 1, calc_score (m_total_count st) C B,
                       calc_risk_in C B, calc_risk_out (m_total_count st) C B)
            in case store st of
                 Store_all \<Rightarrow> row (get_scan st') storage_index = new
               | Store_max \<Rightarrow>
                   (if dgt (calc_score (m_total_count st) C B) (elem (m_scores st) 0)
                    then row (get_scan st') 0 = new else st' = st)
               | Store_sim \<Rightarrow>
                   (if dgt (calc_score (m_total_count st) C B)
                         (elem (sim_scores st) (m_mcsim_index st))
                    then row (get_mcsim st') (m_mcsim_index st) = new else st' = st))"
proof -
  note c = calculate_eq [OF assms(1-3), of storage_index]
  have i: "sint (zone_nr + 1) = sint zone_nr + 1" "sint (duration + 1) = sint duration + 1"
    using assms(2,3) by (simp_all add: sint_increment)
  show ?thesis
  proof (cases "store st")
    case Store_all
    then have "valid_slot st storage_index"
      using assms(4) by simp
    from store_all_total [OF this] obtain st' where
      s: "store_all st storage_index (calc_score (m_total_count st) C B) (calc_risk_in C B)
            (calc_risk_out (m_total_count st) C B) (zone_nr + 1) (duration + 1) = Inr st'"
      by blast
    from store_all_cases [OF s] s i show ?thesis
      by (simp add: c Store_all call_store_def)
  next
    case Store_max
    then have "valid_slot st 0"
      using assms(4) by simp
    from store_max_total [OF this] obtain st' where
      s: "store_max st storage_index (calc_score (m_total_count st) C B) (calc_risk_in C B)
            (calc_risk_out (m_total_count st) C B) (zone_nr + 1) (duration + 1) = Inr st'"
      by blast
    from store_max_cases [OF s] s i show ?thesis
      by (auto simp: c Store_max call_store_def)
  next
    case Store_sim
    then have "valid_sim_slot st (m_mcsim_index st)"
      using assms(4) by simp
    from store_sim_total [OF this] obtain st' where
      s: "store_sim st storage_index (calc_score (m_total_count st) C B) (calc_risk_in C B)
            (calc_risk_out (m_total_count st) C B) (zone_nr + 1) (duration + 1) = Inr st'"
      by blast
    from store_sim_cases [OF s] s i show ?thesis
      by (simp add: c Store_sim call_store_def)
  qed
qed

text \<open>
  Scenario A, everything stored: the candidate of zone 0 and duration 0 (one time step,
  \<open>C = 3\<close>, \<open>B = 2\<close>) is exported as zone 1, duration 1.
\<close>

lemma in_zone_sums_scenario_A:
  "in_zone_sums (scenario_A b) [0] [0] = Inr (3, Fin 2)"
  "in_zone_sums (scenario_A b) [0] [0, 1] = Inr (8, Fin 4)"
  by (cases b; simp add: scenario_A_all scenario_A_max in_zone_sums_def tail_1_def submat_def
      accu_def accu_dbl_def finite_result_small)+

theorem calculate_stores_one_based_witness:
  "in_zone_sums (scenario_A True) [0] [0] = Inr (3, Fin 2) \<and> sint (0::cint) < INT_MAX \<and>
   valid_slot (scenario_A True) 0 \<and>
   (\<exists>st'. calculate (scenario_A True) 0 0 0 [0] [0] = Inr st' \<and>
          row (get_scan st') 0 =
            (1, 1, Fin (3 * ln (3 / 2) + 5 * ln (5 / 6)), Fin (3 / 2), Fin (5 / 6)))"
proof -
  have a: "in_zone_sums (scenario_A True) [0] [0] = Inr (3, Fin 2)"
    by (rule in_zone_sums_scenario_A)
  have z: "sint (0::cint) < INT_MAX"
    by (simp add: INT_MAX_def)
  have v: "valid_slot (scenario_A True) 0"
    by (simp add: scenario_A_all valid_slot_def in_bounds_def)
  have s: "store (scenario_A True) = Store_all" "m_total_count (scenario_A True) = 8"
    by (simp_all add: scenario_A_all)
  have v': "case store (scenario_A True) of Store_all \<Rightarrow> valid_slot (scenario_A True) 0
         | Store_max \<Rightarrow> valid_slot (scenario_A True) 0
         | Store_sim \<Rightarrow> valid_sim_slot (scenario_A True) (m_mcsim_index (scenario_A True))"
    using v by (simp add: s)
  have o: "real (unat (3::uword)) / 2 < overflow_threshold"
    by (rule below_threshold) simp
  have sc: "calc_score 8 3 (Fin 2) = Fin (3 * ln (3 / 2) + 5 * ln (5 / 6))"
    using calc_excess_values(3) [of 2 3 8] o by simp
  have ri: "calc_risk_in 3 (Fin 2) = Fin (3 / 2)" "calc_risk_out 8 3 (Fin 2) = Fin (5 / 6)"
    using calc_excess_values(1,2) [of 2 3 8] o by simp_all
  from calculate_stores_one_based [OF a z z v'] obtain st' where
    "calculate (scenario_A True) 0 0 0 [0] [0] = Inr st'"
    "row (get_scan st') 0 =
       (0 + 1, 0 + 1, calc_score 8 3 (Fin 2), calc_risk_in 3 (Fin 2), calc_risk_out 8 3 (Fin 2))"
    by (auto simp: s Let_def)
  then show ?thesis
    using a z v by (simp add: sc ri)
qed

subsection \<open>Candidates without excess\<close>

lemma calc_score_no_excess:
  "\<not> dgt (double_of_uword C) B \<Longrightarrow> calc_score total_count C B = NegInf"
  by (simp add: calc_score_def)

lemma dgt_calc_score:
  "dgt (calc_score total_count C B) x \<Longrightarrow> dgt (double_of_uword C) B"
proof (rule ccontr)
  assume "dgt (calc_score total_count C B) x" and "\<not> dgt (double_of_uword C) B"
  then have "dgt NegInf x"
    by (simp add: calc_score_no_excess)
  then show False
    by (simp add: dgt_NegInf)
qed

text \<open>
  The storage functions write result vectors only: the aggregate tables, the storage
  function in use and the simulation round stay as they are, through \<open>calculate\<close> and
  through a pass.
\<close>

lemma call_store_preserves:
  assumes "call_store p st i s qi qo z d = Inr st'"
  shows "aggregate_tables st' = aggregate_tables st \<and> store st' = store st \<and>
         m_mcsim_index st' = m_mcsim_index st"
proof (cases p)
  case Store_all
  with assms show ?thesis
    by (auto simp: call_store_def store_all_def aggregate_tables_def split: if_splits)
next
  case Store_max
  with assms show ?thesis
    by (auto simp: call_store_def store_max_def aggregate_tables_def split: if_splits)
next
  case Store_sim
  with assms show ?thesis
    by (auto simp: call_store_def store_sim_def Let_def aggregate_tables_def split: if_splits)
qed

lemma calculate_preserves:
  assumes "calculate st i z d zone rows = Inr st'"
  shows "aggregate_tables st' = aggregate_tables st \<and> store st' = store st \<and>
         m_mcsim_index st' = m_mcsim_index st"
  using calculate_Inr [OF assms] call_store_preserves by blast

lemma calculate_all_preserves:
  "calculate_all st cs = Inr st' \<Longrightarrow>
   aggregate_tables st' = aggregate_tables st \<and> store st' = store st \<and>
   m_mcsim_index st' = m_mcsim_index st"
proof (induction cs arbitrary: st)
  case Nil
  then show ?case by simp
next
  case (Cons c cs)
  obtain i z d zone rows where c: "c = (i, z, d, zone, rows)"
    by (cases c)
  from Cons.prems obtain st1 where
    s1: "calculate st i z d zone rows = Inr st1" and s: "calculate_all st1 cs = Inr st'"
    by (auto simp: c split: sum.splits)
  from Cons.IH [OF s] calculate_preserves [OF s1] show ?case
    by simp
qed

lemma in_zone_sums_tables:
  "aggregate_tables st' = aggregate_tables st \<Longrightarrow>
   in_zone_sums st' zone rows = in_zone_sums st zone rows"
  by (simp add: aggregate_tables_def in_zone_sums_def split: sum.splits)

lemma computed_row_tables:
  "aggregate_tables st' = aggregate_tables st \<Longrightarrow>
   computed_row st' z d C B = computed_row st z d C B"
  by (simp add: aggregate_tables_def computed_row_def)

text \<open>
  Under \<open>store_max\<close> and \<open>store_sim\<close> a call of \<open>calculate\<close> changes nothing, or it leaves
  as the retained maximum the row of its own candidate, whose count then exceeds its
  baseline.
\<close>

lemma calculate_retained:
  assumes "calculate st i z d zone rows = Inr st'" and "store st \<noteq> Store_all"
  shows "st' = st \<or>
         (\<exists>C B. in_zone_sums st zone rows = Inr (C, B) \<and> dgt (double_of_uword C) B \<and>
                retained st' = computed_row st z d C B)"
proof -
  from calculate_Inr [OF assms(1)] obtain C B where
    sums: "in_zone_sums st zone rows = Inr (C, B)" and
    call: "call_store (store st) st i (calc_score (m_total_count st) C B)
             (calc_risk_in C B) (calc_risk_out (m_total_count st) C B) (z + 1) (d + 1) = Inr st'"
    by blast
  note p = call_store_preserves [OF call]
  show ?thesis
  proof (cases "store st")
    case Store_all
    with assms(2) show ?thesis by simp
  next
    case Store_max
    with call have "store_max st i (calc_score (m_total_count st) C B)
             (calc_risk_in C B) (calc_risk_out (m_total_count st) C B) (z + 1) (d + 1) = Inr st'"
      by (simp add: call_store_def)
    from store_max_cases [OF this] show ?thesis
    proof (elim disjE conjE)
      assume g: "dgt (calc_score (m_total_count st) C B) (elem (m_scores st) 0)"
        and r: "row (get_scan st') 0 =
          (z + 1, d + 1, calc_score (m_total_count st) C B, calc_risk_in C B,
           calc_risk_out (m_total_count st) C B)"
      from g have "dgt (double_of_uword C) B"
        by (rule dgt_calc_score)
      moreover have "retained st' = computed_row st z d C B"
        using r p Store_max by (simp add: retained_def computed_row_def)
      ultimately show ?thesis
        using sums by blast
    qed simp
  next
    case Store_sim
    with call have s: "store_sim st i (calc_score (m_total_count st) C B)
             (calc_risk_in C B) (calc_risk_out (m_total_count st) C B) (z + 1) (d + 1) = Inr st'"
      by (simp add: call_store_def)
    show ?thesis
    proof (cases "dgt (calc_score (m_total_count st) C B)
        (elem (sim_scores st) (m_mcsim_index st))")
      case True
      then have "dgt (double_of_uword C) B"
        by (rule dgt_calc_score)
      moreover have "retained st' = computed_row st z d C B"
        using store_sim_cases [OF s] True p Store_sim by (simp add: retained_def computed_row_def)
      ultimately show ?thesis
        using sums by blast
    next
      case False
      with store_sim_cases [OF s] show ?thesis by simp
    qed
  qed
qed

lemma calculate_all_retained:
  "calculate_all st cs = Inr st' \<Longrightarrow> store st \<noteq> Store_all \<Longrightarrow>
   retained st' = retained st \<or>
   (\<exists>c \<in> set cs. case c of (i, z, d, zone, rows) \<Rightarrow>
      \<exists>C B. in_zone_sums st zone rows = Inr (C, B) \<and> dgt (double_of_uword C) B \<and>
            retained st' = computed_row st z d C B)"
proof (induction cs arbitrary: st)
  case Nil
  then show ?case by simp
next
  case (Cons c cs)
  obtain i z d zone rows where c: "c = (i, z, d, zone, rows)"
    by (cases c)
  from Cons.prems(1) obtain st1 where
    s1: "calculate st i z d zone rows = Inr st1" and s: "calculate_all st1 cs = Inr st'"
    by (auto simp: c split: sum.splits)
  note p = calculate_preserves [OF s1]
  have n1: "store st1 \<noteq> Store_all"
    using p Cons.prems(2) by simp
  have t: "aggregate_tables st1 = aggregate_tables st"
    using p by simp
  from Cons.IH [OF s n1] show ?case
  proof (elim disjE bexE)
    assume e: "retained st' = retained st1"
    from calculate_retained [OF s1 Cons.prems(2)] show ?thesis
    proof (elim disjE exE conjE)
      assume "st1 = st"
      with e show ?thesis by simp
    next
      fix C B
      assume "in_zone_sums st zone rows = Inr (C, B)" "dgt (double_of_uword C) B"
        "retained st1 = computed_row st z d C B"
      with e have "case c of (i, z, d, zone, rows) \<Rightarrow>
          \<exists>C B. in_zone_sums st zone rows = Inr (C, B) \<and> dgt (double_of_uword C) B \<and>
            retained st' = computed_row st z d C B"
        by (auto simp: c)
      moreover have "c \<in> set (c # cs)"
        by simp
      ultimately show ?thesis by blast
    qed
  next
    fix c'
    assume m: "c' \<in> set cs" and h: "case c' of (i, z, d, zone, rows) \<Rightarrow>
        \<exists>C B. in_zone_sums st1 zone rows = Inr (C, B) \<and> dgt (double_of_uword C) B \<and>
            retained st' = computed_row st1 z d C B"
    have "case c' of (i, z, d, zone, rows) \<Rightarrow>
        \<exists>C B. in_zone_sums st zone rows = Inr (C, B) \<and> dgt (double_of_uword C) B \<and>
            retained st' = computed_row st z d C B"
      using h by (simp add: in_zone_sums_tables [OF t] computed_row_tables [OF t])
    moreover have "c' \<in> set (c # cs)"
      using m by simp
    ultimately show ?thesis by blast
  qed
qed

lemma dgt_double_of_uword_Fin:
  "dgt (double_of_uword C) (Fin b) = (b < real (unat C))"
  by (simp add: double_of_uword_def)

text \<open>
  Claim C2. A candidate whose in-zone count does not exceed its in-zone baseline (or is not
  comparable with it) has the score \<open>R_NegInf\<close>, and under \<open>store_max\<close> and \<open>store_sim\<close> the
  call of \<open>calculate\<close> on it leaves the object as it was. After a pass, the retained maximum
  is the one the pass started with or the row of a candidate of the pass with \<open>C > B\<close>.
\<close>

theorem no_excess_never_retained:
  "(real (unat C) \<le> b \<longrightarrow> calc_score total_count C (Fin b) = R_NegInf) \<and>
   (\<not> dgt (double_of_uword C) B \<longrightarrow> calc_score total_count C B = R_NegInf) \<and>
   (store st \<noteq> Store_all \<and> in_zone_sums st zone rows = Inr (C, B) \<and>
    \<not> dgt (double_of_uword C) B \<and> calculate st i z d zone rows = Inr st1 \<longrightarrow> st1 = st) \<and>
   (store st \<noteq> Store_all \<and> calculate_all st cs = Inr st' \<longrightarrow>
      retained st' = retained st \<or>
      (\<exists>c \<in> set cs. case c of (i, z, d, zone, rows) \<Rightarrow>
         \<exists>C B. in_zone_sums st zone rows = Inr (C, B) \<and> dgt (double_of_uword C) B \<and>
               retained st' = computed_row st z d C B))"
proof (intro conjI impI)
  assume "real (unat C) \<le> b"
  then show "calc_score total_count C (Fin b) = R_NegInf"
    by (simp add: calc_score_no_excess dgt_double_of_uword_Fin)
next
  assume "\<not> dgt (double_of_uword C) B"
  then show "calc_score total_count C B = R_NegInf"
    by (rule calc_score_no_excess)
next
  assume a: "store st \<noteq> Store_all \<and> in_zone_sums st zone rows = Inr (C, B) \<and>
    \<not> dgt (double_of_uword C) B \<and> calculate st i z d zone rows = Inr st1"
  then have "st1 = st \<or>
         (\<exists>C B. in_zone_sums st zone rows = Inr (C, B) \<and> dgt (double_of_uword C) B \<and>
                retained st1 = computed_row st z d C B)"
    using calculate_retained by blast
  with a show "st1 = st"
    by auto
next
  assume "store st \<noteq> Store_all \<and> calculate_all st cs = Inr st'"
  then show "retained st' = retained st \<or>
      (\<exists>c \<in> set cs. case c of (i, z, d, zone, rows) \<Rightarrow>
         \<exists>C B. in_zone_sums st zone rows = Inr (C, B) \<and> dgt (double_of_uword C) B \<and>
               retained st' = computed_row st z d C B)"
    using calculate_all_retained by blast
qed

text \<open>
  A pass over the two candidates of the table with baselines 2 and 7: the first (\<open>C = 3\<close>,
  \<open>B = 2\<close>) is retained, the second (\<open>C = 8\<close>, \<open>B = 9\<close>) is not.
\<close>

lemma cumsum_dbl_no_excess: "cumsum_dbl [[Fin 2, Fin 7]] = [[Fin 2, Fin 9]]"
  by (simp add: cumsum_dbl_def finite_result_small)

lemma scenario_no_excess_eq:
  "scenario_no_excess =
     \<lparr>m_counts = [[3, 8]], m_baselines = [[Fin 2, Fin 9]], m_baselines_orig = [[Fin 2, Fin 7]],
      m_total_count = 8, m_out_length = 1, m_num_mcsim = 2, m_mcsim_index = 0,
      m_scores = [NegInf], m_relrisk_in = [NaN], m_relrisk_out = [NaN],
      m_zone_numbers = [0], m_durations = [0],
      sim_scores = [NegInf, NegInf], sim_relrisk_in = [NaN, NaN], sim_relrisk_out = [NaN, NaN],
      sim_zone_numbers = [0, 0], sim_durations = [0, 0], store = Store_max\<rparr>"
  by (simp add: scenario_no_excess_def PBPOIabstract_def example_base_def set_size_1 set_size_2
      uninitialised_def
      replicate_2 cumsum_scenario_A cumsum_dbl_no_excess total_scenario_A)

lemma in_zone_sums_no_excess:
  "in_zone_sums scenario_no_excess [0] [0] = Inr (3, Fin 2)"
  "in_zone_sums scenario_no_excess [0] [0, 1] = Inr (8, Fin 9)"
  by (simp_all add: scenario_no_excess_eq in_zone_sums_def tail_1_def submat_def
      accu_def accu_dbl_def finite_result_small)

lemma calc_scenario_values:
  "calc_score 8 3 (Fin 2) = Fin (3 * ln (3 / 2) + 5 * ln (5 / 6))"
  "calc_risk_in 3 (Fin 2) = Fin (3 / 2)"
  "calc_risk_out 8 3 (Fin 2) = Fin (5 / 6)"
  "calc_score 8 8 (Fin 9) = NegInf"
proof -
  have o: "real (unat (3::uword)) / 2 < overflow_threshold"
    by (rule below_threshold) simp
  show "calc_score 8 3 (Fin 2) = Fin (3 * ln (3 / 2) + 5 * ln (5 / 6))"
    using calc_excess_values(3) [of 2 3 8] o by simp
  show "calc_risk_in 3 (Fin 2) = Fin (3 / 2)"
    using calc_excess_values(1) [of 2 3 8] o by simp
  show "calc_risk_out 8 3 (Fin 2) = Fin (5 / 6)"
    using calc_excess_values(2) [of 2 3 8] o by simp
  show "calc_score 8 8 (Fin 9) = NegInf"
    by (simp add: calc_score_def double_of_uword_def)
qed

lemma first_no_excess:
  "calculate scenario_no_excess 0 0 0 [0] [0] =
     Inr (scenario_no_excess\<lparr>m_scores := [Fin (3 * ln (3 / 2) + 5 * ln (5 / 6))],
            m_relrisk_in := [Fin (3 / 2)], m_relrisk_out := [Fin (5 / 6)],
            m_zone_numbers := [1], m_durations := [1]\<rparr>)"
proof -
  have "calculate scenario_no_excess 0 0 0 [0] [0] =
      store_max scenario_no_excess 0 (Fin (3 * ln (3 / 2) + 5 * ln (5 / 6))) (Fin (3 / 2))
        (Fin (5 / 6)) 1 1"
    using calculate_eq [OF in_zone_sums_no_excess(1), of 0 0 0]
    by (simp add: INT_MAX_def scenario_no_excess_eq call_store_def calc_scenario_values)
  also have "\<dots> = Inr (scenario_no_excess\<lparr>m_scores := [Fin (3 * ln (3 / 2) + 5 * ln (5 / 6))],
            m_relrisk_in := [Fin (3 / 2)], m_relrisk_out := [Fin (5 / 6)],
            m_zone_numbers := [1], m_durations := [1]\<rparr>)"
    by (simp add: store_max_def scenario_no_excess_eq in_bounds_def elem_def assign_def)
  finally show ?thesis .
qed


theorem no_excess_never_retained_witness:
  "real (unat (8::uword)) \<le> 9 \<and> calc_score 8 8 (Fin 9) = R_NegInf \<and>
   store scenario_no_excess \<noteq> Store_all \<and>
   in_zone_sums scenario_no_excess [0] [0, 1] = Inr (8, Fin 9) \<and>
   \<not> dgt (double_of_uword 8) (Fin 9) \<and>
   (\<exists>st'. calculate_all scenario_no_excess [(0, 0, 0, [0], [0]), (1, 0, 1, [0], [0, 1])] =
            Inr st' \<and>
          retained st' = computed_row scenario_no_excess 0 0 3 (Fin 2) \<and>
          retained st' \<noteq> computed_row scenario_no_excess 0 1 8 (Fin 9))"
proof -
  let ?st = scenario_no_excess
  let ?st1 = "?st\<lparr>m_scores := [Fin (3 * ln (3 / 2) + 5 * ln (5 / 6))],
            m_relrisk_in := [Fin (3 / 2)], m_relrisk_out := [Fin (5 / 6)],
            m_zone_numbers := [1], m_durations := [1]\<rparr>"
  let ?cs = "[(0, 0, 0, [0], [0]), (1, 0, 1, [0], [0, 1])] :: candidate list"
  have le: "real (unat (8::uword)) \<le> 9"
    by simp
  have n: "store ?st \<noteq> Store_all" "store ?st1 \<noteq> Store_all"
    by (simp_all add: scenario_no_excess_eq)
  have m: "m_total_count ?st = 8"
    by (simp add: scenario_no_excess_eq)
  have nd: "\<not> dgt (double_of_uword 8) (Fin 9)"
    by (simp add: double_of_uword_def)
  have t: "aggregate_tables ?st1 = aggregate_tables ?st"
    by (simp add: aggregate_tables_def)
  have sums1: "in_zone_sums ?st1 [0] [0, 1] = Inr (8, Fin 9)"
    by (rule trans [OF in_zone_sums_tables [OF t] in_zone_sums_no_excess(2)])
  have "calculate ?st1 1 0 1 [0] [0, 1] =
      store_max ?st1 1 (calc_score 8 8 (Fin 9)) (calc_risk_in 8 (Fin 9))
        (calc_risk_out 8 8 (Fin 9)) 1 2"
    using calculate_eq [OF sums1, of 0 1 1]
    by (simp add: INT_MAX_def scenario_no_excess_eq call_store_def)
  also have "\<dots> = Inr ?st1"
    by (simp add: store_max_def calc_scenario_values in_bounds_def elem_def)
  finally have second: "calculate ?st1 1 0 1 [0] [0, 1] = Inr ?st1" .
  have pass: "calculate_all ?st ?cs = Inr ?st1"
    by (simp only: calculate_all.simps first_no_excess second sum.case)
  have score: "calc_score 8 8 (Fin 9) = R_NegInf"
    using no_excess_never_retained [where C = 8 and b = 9 and total_count = 8] le by blast
  have "retained ?st1 = retained ?st \<or>
      (\<exists>c \<in> set ?cs. case c of (i, z, d, zone, rows) \<Rightarrow>
         \<exists>C B. in_zone_sums ?st zone rows = Inr (C, B) \<and> dgt (double_of_uword C) B \<and>
               retained ?st1 = computed_row ?st z d C B)"
    using no_excess_never_retained [where st = ?st and cs = ?cs and st' = ?st1] n(1) pass
    by blast
  moreover have "retained ?st1 \<noteq> retained ?st"
    by (simp add: retained_def row_def get_scan_def elem_def scenario_no_excess_eq)
  ultimately have "retained ?st1 = computed_row ?st 0 0 3 (Fin 2) \<or>
      (dgt (double_of_uword 8) (Fin 9) \<and> retained ?st1 = computed_row ?st 0 1 8 (Fin 9))"
    by (auto simp: in_zone_sums_no_excess simp del: One_nat_def)
  with nd have r: "retained ?st1 = computed_row ?st 0 0 3 (Fin 2)"
    by blast
  have "computed_row ?st 0 0 3 (Fin 2) \<noteq> computed_row ?st 0 1 8 (Fin 9)"
    by (simp add: computed_row_def)
  with r pass le score n(1) in_zone_sums_no_excess(2) nd show ?thesis
    by auto
qed

section \<open>The aggregate tables\<close>

subsection \<open>Sums of counts\<close>

lemma foldl_add_sum_list:
  fixes a :: "'a::comm_monoid_add"
  shows "foldl (+) a xs = a + sum_list xs"
  by (induction xs arbitrary: a) (simp_all add: add.assoc)

lemma accu_sum_list: "accu xs = sum_list xs"
  by (simp add: accu_def foldl_add_sum_list)

lemma last_cumsum_col:
  fixes acc :: "'a::comm_monoid_add"
  shows "col \<noteq> [] \<Longrightarrow> last (cumsum_col (+) acc col) = acc + sum_list col"
proof (induction col arbitrary: acc)
  case Nil
  then show ?case by simp
next
  case (Cons x xs)
  show ?case
  proof (cases "xs = []")
    case True
    then show ?thesis by simp
  next
    case False
    then have "cumsum_col (+) (acc + x) xs \<noteq> []"
      by (cases xs) simp_all
    with Cons.IH [OF False, of "acc + x"] show ?thesis
      by (simp add: add.assoc)
  qed
qed

lemma unat_sum_list:
  fixes xs :: "uword list"
  shows "sum_list (map unat xs) < 2 ^ 64 \<Longrightarrow> unat (sum_list xs) = sum_list (map unat xs)"
proof (induction xs)
  case Nil
  show ?case by simp
next
  case (Cons x xs)
  then have "sum_list (map unat xs) < 2 ^ 64"
    by simp
  then have ih: "unat (sum_list xs) = sum_list (map unat xs)"
    by (rule Cons.IH)
  have "unat x + unat (sum_list xs) < 2 ^ LENGTH(64)"
    using Cons.prems by (simp add: ih)
  then have "unat (x + sum_list xs) = unat x + unat (sum_list xs)"
    by (simp only: unat_add_lem)
  then show ?case
    by (simp add: ih)
qed

lemma sint_int_of_uword:
  fixes w :: uword
  assumes "unat w < 2 ^ 31"
  shows "sint (int_of_uword w) = int (unat w)"
proof -
  have "int_of_uword w = word_of_nat (unat w)"
    by (simp add: int_of_uword_def)
  then show ?thesis
    using sint_index [OF assms] by simp
qed

lemma final_row_cumsum:
  "\<forall>col \<in> set counts. col \<noteq> [] \<Longrightarrow> final_row (cumsum counts) = map sum_list counts"
  by (simp add: final_row_def cumsum_def last_cumsum_col)

lemma sum_columns:
  fixes counts :: "uword mat"
  assumes "sum_list (map unat (concat counts)) < 2 ^ 64"
  shows "sum_list (map unat (map sum_list counts)) = sum_list (map unat (concat counts))"
  using assms
proof (induction counts)
  case Nil
  show ?case by simp
next
  case (Cons c cs)
  from Cons.prems have a: "sum_list (map unat c) < 2 ^ 64" "sum_list (map unat (concat cs)) < 2 ^ 64"
    by simp_all
  show ?case
    using Cons.IH [OF a(2)] unat_sum_list [OF a(1)] by simp
qed

subsection \<open>The total count\<close>

lemma calculate_all_tables:
  "calculate_all st cs = Inr st' \<Longrightarrow> aggregate_tables st' = aggregate_tables st"
  using calculate_all_preserves by blast

text \<open>
  Claim C8, as the code has it. \<open>m_total_count\<close> is an \<open>int\<close>. For a count matrix with at
  least one time step whose counts sum to less than \<open>2 ^ 31\<close>, the total count stored by the
  constructor is the sum over the locations of the final entries of the cumulative counts,
  which is the sum of all raw counts; and so it is after any pass of \<open>calculate\<close>, which
  leaves the tables alone.
\<close>

theorem total_count_is_final_row_sum:
  fixes counts :: "uword mat"
  assumes "\<forall>col \<in> set counts. col \<noteq> []"
    and "sum_list (map unat (concat counts)) < 2 ^ 31"
    and "calculate_all (PBPOIabstract base uninit counts baselines store_everything) cs = Inr st'"
  shows "int (sum_list (map unat (final_row (m_counts st')))) = sint (m_total_count st') \<and>
         int (sum_list (map unat (concat counts))) = sint (m_total_count st')"
proof -
  let ?st = "PBPOIabstract base uninit counts baselines store_everything"
  let ?n = "sum_list (map unat (concat counts))"
  have "(2::nat) ^ 31 < 2 ^ 64"
    by simp
  with assms(2) have big: "?n < 2 ^ 64"
    by (rule less_trans)
  have t: "m_counts st' = cumsum counts" "m_total_count st' = int_of_uword (accu (concat counts))"
    using calculate_all_tables [OF assms(3)]
    by (simp_all add: aggregate_tables_def PBPOIabstract_def)
  have u: "unat (accu (concat counts)) = ?n"
    using big by (simp add: accu_sum_list unat_sum_list)
  have total: "sint (m_total_count st') = int ?n"
    using sint_int_of_uword [of "accu (concat counts)"] assms(2) by (simp add: t u)
  have "final_row (m_counts st') = map sum_list counts"
    using assms(1) by (simp add: t final_row_cumsum)
  then have "sum_list (map unat (final_row (m_counts st'))) = ?n"
    using sum_columns [OF big] by simp
  with total show ?thesis
    by simp
qed

text \<open>Scenario A after the pass over its first candidate: both sums are 8.\<close>

theorem total_count_is_final_row_sum_witness:
  "[] \<notin> set [[3, 5 :: uword]] \<and>
   sum_list (map unat (concat [[3, 5 :: uword]])) < 2 ^ 31 \<and>
   (\<exists>st'. calculate_all (scenario_A True) [(0, 0, 0, [0], [0])] = Inr st' \<and>
          sum_list (map unat (final_row (m_counts st'))) = 8 \<and> sint (m_total_count st') = 8)"
proof -
  let ?st = "scenario_A True"
  have a: "\<forall>col \<in> set [[3, 5 :: uword]]. col \<noteq> []"
    by simp
  have b: "sum_list (map unat (concat [[3, 5 :: uword]])) < 2 ^ 31"
    by simp
  have z: "sint (0::cint) < INT_MAX"
    by (simp add: INT_MAX_def)
  have v: "valid_slot ?st 0"
    by (simp add: scenario_A_all valid_slot_def in_bounds_def)
  have s: "store ?st = Store_all"
    by (simp add: scenario_A_all)
  have "calculate ?st 0 0 0 [0] [0] =
      store_all ?st 0 (calc_score (m_total_count ?st) 3 (Fin 2)) (calc_risk_in 3 (Fin 2))
        (calc_risk_out (m_total_count ?st) 3 (Fin 2)) (0 + 1) (0 + 1)"
    using calculate_eq [OF in_zone_sums_scenario_A(1) z z, of True 0]
    by (simp only: s call_store_def store_ptr.case)
  then obtain st' where "calculate ?st 0 0 0 [0] [0] = Inr st'"
    using store_all_total [OF v] by metis
  then have pass: "calculate_all ?st [(0, 0, 0, [0], [0])] = Inr st'"
    by simp
  from total_count_is_final_row_sum [OF a b pass [unfolded scenario_A_def]]
  have "int (sum_list (map unat (final_row (m_counts st')))) = sint (m_total_count st')"
    "int (sum_list (map unat (concat [[3, 5 :: uword]]))) = sint (m_total_count st')"
    by simp_all
  then have "sint (m_total_count st') = 8" "sum_list (map unat (final_row (m_counts st'))) = 8"
    by simp_all
  with b pass show ?thesis
    by auto
qed

text \<open>
  One location, one time step, the count \<open>2 ^ 31\<close>: the cumulative count is \<open>2 ^ 31\<close>, the
  total count stored in the \<open>int\<close> is \<open>- 2 ^ 31\<close>.
\<close>

lemma scenario_overflow_tables:
  "m_counts scenario_overflow = [[2147483648]]"
  "m_total_count scenario_overflow = int_of_uword 2147483648"
  by (simp_all add: scenario_overflow_def PBPOIabstract_def cumsum_def accu_def)

theorem total_count_overflow_counterexample:
  "sum_list (map unat (final_row (m_counts scenario_overflow))) = 2147483648 \<and>
   sint (m_total_count scenario_overflow) = - 2147483648"
  by (simp add: scenario_overflow_tables final_row_def int_of_uword_def)

end
